theory Spec2Isabelle
  imports Main
begin

section \<open>Configuration constants\<close>

definition DEFAULT_HOST :: string where
  "DEFAULT_HOST = ''http://www.ensembl.org''"

definition MAX_RETRIES :: nat where
  "MAX_RETRIES = 3"

definition RETRY_DELAY :: nat where
  "RETRY_DELAY = 2"

definition COMMON_ATTRIBUTES :: "string list" where
  "COMMON_ATTRIBUTES =
    [''ensembl_gene_id'', ''external_gene_name'', ''hgnc_symbol'', ''hgnc_id'',
     ''gene_biotype'', ''ensembl_transcript_id'', ''ensembl_peptide_id'',
     ''ensembl_exon_id'', ''description'', ''chromosome_name'', ''start_position'',
     ''end_position'', ''strand'', ''band'', ''transcript_start'', ''transcript_end'',
     ''transcription_start_site'', ''transcript_length'']"

section \<open>Values of the program\<close>

text \<open>
  A data frame as the program sees it: the column names and the records, every cell a
  string, every record with one cell for each column.
\<close>

record dataframe =
  columns :: "string list"
  rows :: "string list list"

text \<open>
  A Python call either returns a value or raises an exception; the exception is kept as
  its message, \<open>str(e)\<close>, the only part of it the program reads.
\<close>

datatype 'a result = Raise string | Return 'a

section \<open>The remote catalog and the process state\<close>

text \<open>
  The requests the program sends to the remote service. \<open>Connect\<close> is
  \<open>pybiomart.Server(host=...)\<close>; \<open>Query m d attrs filters\<close> is
  \<open>server[m][d].query(attributes=attrs, filters=filters)\<close>, the filters being
  \<open>None\<close> when the argument is left out.
\<close>

datatype request =
    Connect string
  | ListMarts
  | ListDatasets string
  | ListAttributes string string
  | ListFilters string string
  | Query string string "string list" "(string \<times> string) list option"

text \<open>
  The collaborators outside the program: the line separator of the platform, which
  \<open>to_csv\<close> writes after every record, and the remote service. The service answers the
  request the process sends as its \<open>n\<close>-th (counted from 0) either with an exception
  message or with a result, so it may fail for a while and may change its data.
\<close>

record world =
  linesep :: string
  connect_outcome :: "nat \<Rightarrow> string \<Rightarrow> string option"
  answer :: "nat \<Rightarrow> request \<Rightarrow> string + dataframe"

type_synonym server = nat

type_synonym translation_key = "string \<times> string \<times> string \<times> string \<times> string"

text \<open>
  The state of the process: the two \<open>lru_cache\<close> stores (most recently used entry first),
  the lines written to \<open>sys.stderr\<close>, the durations passed to \<open>time.sleep\<close>, and the
  requests sent to the remote service so far.
\<close>

record state =
  server_cache :: "(unit \<times> server) list"
  translation_cache :: "(translation_key \<times> string) list"
  stderr :: "string list"
  slept :: "nat list"
  requests :: "request list"

definition initial_state :: state where
  "initial_state =
    \<lparr>server_cache = [], translation_cache = [], stderr = [], slept = [], requests = []\<rparr>"

definition print_stderr :: "string \<Rightarrow> state \<Rightarrow> state" where
  "print_stderr line s = s\<lparr>stderr := stderr s @ [line]\<rparr>"

definition sleep :: "nat \<Rightarrow> state \<Rightarrow> state" where
  "sleep secs s = s\<lparr>slept := slept s @ [secs]\<rparr>"

text \<open>\<open>pybiomart.Server(host=host)\<close>: the handle is the position of the request.\<close>

definition new_server :: "world \<Rightarrow> string \<Rightarrow> state \<Rightarrow> server result \<times> state" where
  "new_server env host s =
    (let n = length (requests s);
         s' = s\<lparr>requests := requests s @ [Connect host]\<rparr>
     in case connect_outcome env n host of
          Some msg \<Rightarrow> (Raise msg, s')
        | None \<Rightarrow> (Return n, s'))"

text \<open>A listing or a query on a server handle.\<close>

definition fetch :: "world \<Rightarrow> server \<Rightarrow> request \<Rightarrow> state \<Rightarrow> dataframe result \<times> state" where
  "fetch env srv r s =
    (let n = length (requests s);
         s' = s\<lparr>requests := requests s @ [r]\<rparr>
     in case answer env n r of
          Inl msg \<Rightarrow> (Raise msg, s')
        | Inr df \<Rightarrow> (Return df, s'))"

section \<open>\<open>functools.lru_cache\<close>\<close>

text \<open>
  The store of an \<open>lru_cache\<close> is an association list, most recently used first. A hit
  moves the entry to the front. A miss calls the function; a returned value is stored at
  the front, after the oldest entry is dropped when the store is full; a raised exception
  is passed on and nothing is stored.
\<close>

definition cache_get :: "'k \<Rightarrow> ('k \<times> 'v) list \<Rightarrow> 'v option" where
  "cache_get k c = map_of c k"

definition cache_touch :: "'k \<Rightarrow> 'v \<Rightarrow> ('k \<times> 'v) list \<Rightarrow> ('k \<times> 'v) list" where
  "cache_touch k v c = (k, v) # filter (\<lambda>e. fst e \<noteq> k) c"

definition cache_put :: "nat \<Rightarrow> 'k \<Rightarrow> 'v \<Rightarrow> ('k \<times> 'v) list \<Rightarrow> ('k \<times> 'v) list" where
  "cache_put maxsize k v c = (k, v) # (if maxsize \<le> length c then butlast c else c)"

section \<open>\<open>get_server\<close>\<close>

definition get_server_body :: "world \<Rightarrow> state \<Rightarrow> server result \<times> state" where
  "get_server_body env s =
    (case new_server env DEFAULT_HOST s of
       (Return srv, s1) \<Rightarrow> (Return srv, s1)
     | (Raise e, s1) \<Rightarrow>
         (Raise e, print_stderr (''Error connecting to Biomart server: '' @ e) s1))"

definition get_server :: "world \<Rightarrow> state \<Rightarrow> server result \<times> state" where
  "get_server env s =
    (case cache_get () (server_cache s) of
       Some srv \<Rightarrow> (Return srv, s\<lparr>server_cache := cache_touch () srv (server_cache s)\<rparr>)
     | None \<Rightarrow>
         (case get_server_body env s of
            (Return srv, s1) \<Rightarrow>
              (Return srv, s1\<lparr>server_cache := cache_put 10 () srv (server_cache s1)\<rparr>)
          | (Raise e, s1) \<Rightarrow> (Raise e, s1)))"

section \<open>\<open>get_translation\<close>\<close>

text \<open>\<open>df.iloc[:, j]\<close>: the cells of column \<open>j\<close>, an IndexError when there is none.\<close>

definition iloc_column :: "dataframe \<Rightarrow> nat \<Rightarrow> string list result" where
  "iloc_column df j =
    (if j < length (columns df) then Return (map (\<lambda>r. r ! j) (rows df))
     else Raise ''single positional indexer is out-of-bounds'')"

text \<open>\<open>dict(pairs)\<close>: the pairs are stored in order, a later one replacing an earlier.\<close>

definition dict :: "('k \<times> 'v) list \<Rightarrow> ('k \<rightharpoonup> 'v)" where
  "dict ps = fold (\<lambda>(k, v) m. m(k \<mapsto> v)) ps Map.empty"

definition get_translation_try ::
  "world \<Rightarrow> translation_key \<Rightarrow> state \<Rightarrow> string result \<times> state" where
  "get_translation_try env key s =
    (case key of (mart, dataset, from_attr, to_attr, target) \<Rightarrow>
      (case get_server env s of
         (Raise e, s1) \<Rightarrow> (Raise e, s1)
       | (Return srv, s1) \<Rightarrow>
          (case fetch env srv (Query mart dataset [from_attr, to_attr] None) s1 of
             (Raise e, s2) \<Rightarrow> (Raise e, s2)
           | (Return df, s2) \<Rightarrow>
              (case iloc_column df 0 of
                 Raise e \<Rightarrow> (Raise e, s2)
               | Return froms \<Rightarrow>
                  (case iloc_column df 1 of
                     Raise e \<Rightarrow> (Raise e, s2)
                   | Return tos \<Rightarrow>
                      (let result_dict = dict (zip froms tos)
                       in case result_dict target of
                            None \<Rightarrow>
                              (Return (''Error: Target '' @ [CHR 0x27] @ target @ [CHR 0x27] @ '' not found''),
                               print_stderr (''Target '' @ [CHR 0x27] @ target @ [CHR 0x27]
                                             @ '' not found in translation'') s2)
                          | Some v \<Rightarrow> (Return v, s2)))))))"

text \<open>The function under the decorator: the \<open>try\<close> and its \<open>except Exception\<close>.\<close>

definition get_translation_body ::
  "world \<Rightarrow> translation_key \<Rightarrow> state \<Rightarrow> string result \<times> state" where
  "get_translation_body env key s =
    (case get_translation_try env key s of
       (Return v, s1) \<Rightarrow> (Return v, s1)
     | (Raise e, s1) \<Rightarrow>
         (Return (''Error: '' @ e), print_stderr (''Error in translation: '' @ e) s1))"

text \<open>The decorated function, \<open>lru_cache(maxsize=1000)\<close> on all five arguments.\<close>

definition get_translation ::
  "world \<Rightarrow> translation_key \<Rightarrow> state \<Rightarrow> string result \<times> state" where
  "get_translation env key s =
    (case cache_get key (translation_cache s) of
       Some v \<Rightarrow> (Return v, s\<lparr>translation_cache := cache_touch key v (translation_cache s)\<rparr>)
     | None \<Rightarrow>
         (case get_translation_body env key s of
            (Return v, s1) \<Rightarrow>
              (Return v, s1\<lparr>translation_cache := cache_put 1000 key v (translation_cache s1)\<rparr>)
          | (Raise e, s1) \<Rightarrow> (Raise e, s1)))"

section \<open>The tabular text\<close>

text \<open>
  Modelled from the spec: \<open>DataFrame.to_csv(index=False)\<close> belongs to the pandas library
  and is not part of the repository. The spec (4.5) describes its text: comma-separated,
  a header row of column names, one data row per record, fields quoted and escaped per
  standard CSV rules. Here a field is quoted when it holds a comma, a double quote, a line
  feed or a carriage return, a double quote inside it is doubled, a record whose only
  field is empty is written as two double quotes, and every record ends with the line
  separator of the platform.
\<close>

definition needs_quotes :: "string \<Rightarrow> bool" where
  "needs_quotes f = list_ex (\<lambda>c. c = CHR '','' \<or> c = CHR 0x22 \<or> c = CHR 0x0A \<or> c = CHR 0x0D) f"

definition double_quotes :: "string \<Rightarrow> string" where
  "double_quotes f = concat (map (\<lambda>c. if c = CHR 0x22 then [c, c] else [c]) f)"

definition csv_field :: "string \<Rightarrow> string" where
  "csv_field f =
    (if needs_quotes f then [CHR 0x22] @ double_quotes f @ [CHR 0x22] else f)"

fun join_fields :: "string list \<Rightarrow> string" where
  "join_fields [] = []"
| "join_fields [f] = f"
| "join_fields (f # g # fs) = f @ [CHR '',''] @ join_fields (g # fs)"

definition csv_record :: "string list \<Rightarrow> string" where
  "csv_record fs = (if fs = [[]] then [CHR 0x22, CHR 0x22] else join_fields (map csv_field fs))"

definition to_csv :: "string \<Rightarrow> dataframe \<Rightarrow> string" where
  "to_csv sep df = concat (map (\<lambda>r. csv_record r @ sep) (columns df # rows df))"

text \<open>\<open>.replace("\r", "")\<close>, as the program applies it to every table it returns.\<close>

definition remove_cr :: "string \<Rightarrow> string" where
  "remove_cr text = filter (\<lambda>c. c \<noteq> CHR 0x0D) text"

section \<open>\<open>list_marts\<close> and \<open>list_datasets\<close>\<close>

definition list_marts_try :: "world \<Rightarrow> state \<Rightarrow> string result \<times> state" where
  "list_marts_try env s =
    (case get_server env s of
       (Raise e, s1) \<Rightarrow> (Raise e, s1)
     | (Return srv, s1) \<Rightarrow>
        (case fetch env srv ListMarts s1 of
           (Raise e, s2) \<Rightarrow> (Raise e, s2)
         | (Return df, s2) \<Rightarrow> (Return (remove_cr (to_csv (linesep env) df)), s2)))"

definition list_marts :: "world \<Rightarrow> state \<Rightarrow> string result \<times> state" where
  "list_marts env s =
    (case list_marts_try env s of
       (Return v, s1) \<Rightarrow> (Return v, s1)
     | (Raise e, s1) \<Rightarrow>
         (Return (''Error: '' @ e), print_stderr (''Error listing marts: '' @ e) s1))"

definition list_datasets_try :: "world \<Rightarrow> string \<Rightarrow> state \<Rightarrow> string result \<times> state" where
  "list_datasets_try env mart s =
    (case get_server env s of
       (Raise e, s1) \<Rightarrow> (Raise e, s1)
     | (Return srv, s1) \<Rightarrow>
        (case fetch env srv (ListDatasets mart) s1 of
           (Raise e, s2) \<Rightarrow> (Raise e, s2)
         | (Return df, s2) \<Rightarrow> (Return (remove_cr (to_csv (linesep env) df)), s2)))"

definition list_datasets :: "world \<Rightarrow> string \<Rightarrow> state \<Rightarrow> string result \<times> state" where
  "list_datasets env mart s =
    (case list_datasets_try env mart s of
       (Return v, s1) \<Rightarrow> (Return v, s1)
     | (Raise e, s1) \<Rightarrow>
         (Return (''Error: '' @ e),
          print_stderr (''Error listing datasets for mart '' @ mart @ '': '' @ e) s1))"

section \<open>The attribute and filter listings\<close>

fun index_of :: "'a \<Rightarrow> 'a list \<Rightarrow> nat option" where
  "index_of x [] = None"
| "index_of x (y # ys) =
    (if x = y then Some 0 else (case index_of x ys of None \<Rightarrow> None | Some i \<Rightarrow> Some (Suc i)))"

text \<open>\<open>df[name]\<close>: the cells of the column called \<open>name\<close>, a KeyError when there is none.\<close>

definition get_column :: "dataframe \<Rightarrow> string \<Rightarrow> string list result" where
  "get_column df name =
    (case index_of name (columns df) of
       None \<Rightarrow> Raise ([CHR 0x27] @ name @ [CHR 0x27])
     | Some j \<Rightarrow> Return (map (\<lambda>r. r ! j) (rows df)))"

text \<open>\<open>df[mask]\<close>: the records whose entry in the boolean mask is true.\<close>

definition select_rows :: "bool list \<Rightarrow> dataframe \<Rightarrow> dataframe" where
  "select_rows keep df = df\<lparr>rows := map snd (filter fst (zip keep (rows df)))\<rparr>"

text \<open>\<open>Series.isin(values)\<close>.\<close>

definition isin :: "string list \<Rightarrow> string list \<Rightarrow> bool list" where
  "isin names values = map (\<lambda>n. n \<in> set values) names"

text \<open>
  \<open>Series.str.contains(pat, na=False)\<close>. The pattern is a regular expression; the four
  patterns of the program have no special character, so the search is for a substring.
\<close>

fun starts_with :: "string \<Rightarrow> string \<Rightarrow> bool" where
  "starts_with [] s = True"
| "starts_with (p # ps) [] = False"
| "starts_with (p # ps) (c # cs) = (p = c \<and> starts_with ps cs)"

fun has_substring :: "string \<Rightarrow> string \<Rightarrow> bool" where
  "has_substring pat [] = (pat = [])"
| "has_substring pat (c # cs) = (starts_with pat (c # cs) \<or> has_substring pat cs)"

definition str_contains :: "string list \<Rightarrow> string \<Rightarrow> bool list" where
  "str_contains names pat = map (has_substring pat) names"

definition list_common_attributes ::
  "world \<Rightarrow> string \<Rightarrow> string \<Rightarrow> state \<Rightarrow> string result \<times> state" where
  "list_common_attributes env mart dataset s =
    (case new_server env DEFAULT_HOST s of
       (Raise e, s1) \<Rightarrow> (Raise e, s1)
     | (Return srv, s1) \<Rightarrow>
        (case fetch env srv (ListAttributes mart dataset) s1 of
           (Raise e, s2) \<Rightarrow> (Raise e, s2)
         | (Return df, s2) \<Rightarrow>
            (case get_column df ''name'' of
               Raise e \<Rightarrow> (Raise e, s2)
             | Return names \<Rightarrow>
                (Return (remove_cr (to_csv (linesep env)
                           (select_rows (isin names COMMON_ATTRIBUTES) df))), s2))))"

text \<open>One line \<open>df = df[~df["name"].str.contains(pat, na=False)]\<close>.\<close>

definition drop_matching :: "string \<Rightarrow> dataframe \<Rightarrow> dataframe result" where
  "drop_matching pat df =
    (case get_column df ''name'' of
       Raise e \<Rightarrow> Raise e
     | Return names \<Rightarrow> Return (select_rows (map Not (str_contains names pat)) df))"

definition list_all_attributes ::
  "world \<Rightarrow> string \<Rightarrow> string \<Rightarrow> state \<Rightarrow> string result \<times> state" where
  "list_all_attributes env mart dataset s =
    (case new_server env DEFAULT_HOST s of
       (Raise e, s1) \<Rightarrow> (Raise e, s1)
     | (Return srv, s1) \<Rightarrow>
        (case fetch env srv (ListAttributes mart dataset) s1 of
           (Raise e, s2) \<Rightarrow> (Raise e, s2)
         | (Return df, s2) \<Rightarrow>
            (case drop_matching ''_homolog_'' df of
               Raise e \<Rightarrow> (Raise e, s2)
             | Return df1 \<Rightarrow>
                (case drop_matching ''dbass'' df1 of
                   Raise e \<Rightarrow> (Raise e, s2)
                 | Return df2 \<Rightarrow>
                    (case drop_matching ''affy_'' df2 of
                       Raise e \<Rightarrow> (Raise e, s2)
                     | Return df3 \<Rightarrow>
                        (case drop_matching ''agilent_'' df3 of
                           Raise e \<Rightarrow> (Raise e, s2)
                         | Return df4 \<Rightarrow>
                            (Return (remove_cr (to_csv (linesep env) df4)), s2)))))))"

definition list_filters ::
  "world \<Rightarrow> string \<Rightarrow> string \<Rightarrow> state \<Rightarrow> string result \<times> state" where
  "list_filters env mart dataset s =
    (case new_server env DEFAULT_HOST s of
       (Raise e, s1) \<Rightarrow> (Raise e, s1)
     | (Return srv, s1) \<Rightarrow>
        (case fetch env srv (ListFilters mart dataset) s1 of
           (Raise e, s2) \<Rightarrow> (Raise e, s2)
         | (Return df, s2) \<Rightarrow> (Return (remove_cr (to_csv (linesep env) df)), s2)))"

section \<open>\<open>get_data\<close>\<close>

definition digit_char :: "nat \<Rightarrow> char" where
  "digit_char d = ''0123456789'' ! d"

fun str_nat :: "nat \<Rightarrow> string" where
  "str_nat n = (if n < 10 then [digit_char n] else str_nat (n div 10) @ [digit_char (n mod 10)])"

declare str_nat.simps [simp del]

text \<open>The body of the \<open>try\<close> in one pass of the loop.\<close>

definition get_data_try ::
  "world \<Rightarrow> string \<Rightarrow> string \<Rightarrow> string list \<Rightarrow> (string \<times> string) list \<Rightarrow> state
    \<Rightarrow> string result \<times> state" where
  "get_data_try env mart dataset attributes filters s =
    (case get_server env s of
       (Raise e, s1) \<Rightarrow> (Raise e, s1)
     | (Return srv, s1) \<Rightarrow>
        (case fetch env srv (Query mart dataset attributes (Some filters)) s1 of
           (Raise e, s2) \<Rightarrow> (Raise e, s2)
         | (Return df, s2) \<Rightarrow> (Return (remove_cr (to_csv (linesep env) df)), s2)))"

text \<open>The two \<open>print\<close> calls and the \<open>time.sleep\<close> of the \<open>except\<close> branch.\<close>

definition log_failure :: "nat \<Rightarrow> string \<Rightarrow> state \<Rightarrow> state" where
  "log_failure attempt e s =
    print_stderr (''Error getting data (attempt '' @ str_nat (attempt + 1) @ ''/''
                  @ str_nat MAX_RETRIES @ ''): '' @ e) s"

definition wait_retry :: "state \<Rightarrow> state" where
  "wait_retry s =
    sleep RETRY_DELAY (print_stderr (''Retrying in '' @ str_nat RETRY_DELAY @ '' seconds...'') s)"

text \<open>
  The \<open>for\<close> loop over the attempts still to run. A loop that ends without a
  \<open>return\<close> leaves the function with \<open>None\<close>.
\<close>

fun get_data_loop ::
  "world \<Rightarrow> string \<Rightarrow> string \<Rightarrow> string list \<Rightarrow> (string \<times> string) list \<Rightarrow> nat list \<Rightarrow> state
    \<Rightarrow> string option result \<times> state" where
  "get_data_loop env mart dataset attributes filters [] s = (Return None, s)"
| "get_data_loop env mart dataset attributes filters (attempt # rest) s =
    (case get_data_try env mart dataset attributes filters s of
       (Return text, s1) \<Rightarrow> (Return (Some text), s1)
     | (Raise e, s1) \<Rightarrow>
        (let s2 = log_failure attempt e s1
         in if attempt < MAX_RETRIES - 1
            then get_data_loop env mart dataset attributes filters rest (wait_retry s2)
            else (Return (Some (''Error: '' @ e)), s2)))"

definition get_data ::
  "world \<Rightarrow> string \<Rightarrow> string \<Rightarrow> string list \<Rightarrow> (string \<times> string) list \<Rightarrow> state
    \<Rightarrow> string option result \<times> state" where
  "get_data env mart dataset attributes filters s =
    get_data_loop env mart dataset attributes filters [0..<MAX_RETRIES] s"

section \<open>Observing the program\<close>

text \<open>
  The state in which pass \<open>i\<close> of the loop of \<open>get_data\<close> starts, the passes before it
  having failed.
\<close>

fun attempt_state ::
  "world \<Rightarrow> string \<Rightarrow> string \<Rightarrow> string list \<Rightarrow> (string \<times> string) list \<Rightarrow> nat \<Rightarrow> state
    \<Rightarrow> state" where
  "attempt_state env mart dataset attributes filters 0 s = s"
| "attempt_state env mart dataset attributes filters (Suc i) s =
    (case get_data_try env mart dataset attributes filters
            (attempt_state env mart dataset attributes filters i s) of
       (Raise e, s1) \<Rightarrow> wait_retry (log_failure i e s1)
     | (Return text, s1) \<Rightarrow> s1)"

text \<open>
  The line \<open>get_server\<close> writes when it is called in state \<open>s\<close> and has to connect
  but cannot.
\<close>

definition connect_lines :: "world \<Rightarrow> state \<Rightarrow> string list" where
  "connect_lines env s =
    (case fst (get_server env s) of
       Raise e \<Rightarrow> [''Error connecting to Biomart server: '' @ e]
     | Return srv \<Rightarrow> [])"

text \<open>The seven tools and a process that serves one call after the other.\<close>

datatype call =
    CallListMarts
  | CallListDatasets string
  | CallListCommonAttributes string string
  | CallListAllAttributes string string
  | CallListFilters string string
  | CallGetData string string "string list" "(string \<times> string) list"
  | CallGetTranslation translation_key

definition some_result :: "string result \<times> state \<Rightarrow> string option result \<times> state" where
  "some_result p =
    (case p of (Raise e, s) \<Rightarrow> (Raise e, s) | (Return v, s) \<Rightarrow> (Return (Some v), s))"

fun perform :: "world \<Rightarrow> call \<Rightarrow> state \<Rightarrow> string option result \<times> state" where
  "perform env CallListMarts s = some_result (list_marts env s)"
| "perform env (CallListDatasets m) s = some_result (list_datasets env m s)"
| "perform env (CallListCommonAttributes m d) s = some_result (list_common_attributes env m d s)"
| "perform env (CallListAllAttributes m d) s = some_result (list_all_attributes env m d s)"
| "perform env (CallListFilters m d) s = some_result (list_filters env m d s)"
| "perform env (CallGetData m d a f) s = get_data env m d a f s"
| "perform env (CallGetTranslation key) s = some_result (get_translation env key s)"

fun run :: "world \<Rightarrow> call list \<Rightarrow> state \<Rightarrow> state" where
  "run env [] s = s"
| "run env (c # cs) s = run env cs (snd (perform env c s))"

text \<open>The argument tuples of the \<open>get_translation\<close> calls in a list of calls.\<close>

fun translation_keys :: "call list \<Rightarrow> translation_key list" where
  "translation_keys [] = []"
| "translation_keys (CallGetTranslation key # cs) = key # translation_keys cs"
| "translation_keys (c # cs) = translation_keys cs"

fun is_connect :: "request \<Rightarrow> bool" where
  "is_connect (Connect host) = True"
| "is_connect r = False"

fun is_query :: "request \<Rightarrow> bool" where
  "is_query (Query m d a f) = True"
| "is_query r = False"

text \<open>A name that \<open>list_all_attributes\<close> leaves out: it holds one of the four patterns.\<close>

definition excluded_patterns :: "string list" where
  "excluded_patterns = [''_homolog_'', ''dbass'', ''affy_'', ''agilent_'']"

definition excluded_name :: "string \<Rightarrow> bool" where
  "excluded_name n = list_ex (\<lambda>pat. has_substring pat n) excluded_patterns"

text \<open>
  An invariant of the store of an \<open>lru_cache\<close>: the entry of \<open>key\<close> is in the store with value \<open>v\<close>, and the entries in front of it
  have distinct keys, all of them in \<open>S\<close>.
\<close>

definition still_cached :: "'k \<Rightarrow> 'v \<Rightarrow> 'k set \<Rightarrow> ('k \<times> 'v) list \<Rightarrow> bool" where
  "still_cached key v S c =
    (\<exists>pre post. c = pre @ (key, v) # post \<and> key \<notin> fst ` set pre \<and>
                distinct (map fst pre) \<and> fst ` set pre \<subseteq> S)"

text \<open>
  Modelled from the spec: the reader that parses a returned table back as CSV (spec 8,
  round trip) is no part of the repository. It reads comma-separated text whose records
  end with a line feed; its arguments are the mode, the field being read, the fields of
  the record read so far, and the text still to read. A double quote opens a quoted
  field, in which two double quotes stand for one. An empty line is a record with no
  field.
\<close>

datatype mode = RecordStart | FieldStart | InField | InQuoted | QuoteSeen

fun parse_csv :: "mode \<Rightarrow> string \<Rightarrow> string list \<Rightarrow> string \<Rightarrow> string list list" where
  "parse_csv st f r [] = (if st = RecordStart then [] else [r @ [f]])"
| "parse_csv RecordStart f r (c # cs) =
    (if c = CHR 0x0A then [] # parse_csv RecordStart [] [] cs
     else if c = CHR '','' then parse_csv FieldStart [] [[]] cs
     else if c = CHR 0x22 then parse_csv InQuoted [] [] cs
     else parse_csv InField [c] [] cs)"
| "parse_csv FieldStart f r (c # cs) =
    (if c = CHR 0x0A then (r @ [[]]) # parse_csv RecordStart [] [] cs
     else if c = CHR '','' then parse_csv FieldStart [] (r @ [[]]) cs
     else if c = CHR 0x22 then parse_csv InQuoted [] r cs
     else parse_csv InField [c] r cs)"
| "parse_csv InField f r (c # cs) =
    (if c = CHR 0x0A then (r @ [f]) # parse_csv RecordStart [] [] cs
     else if c = CHR '','' then parse_csv FieldStart [] (r @ [f]) cs
     else parse_csv InField (f @ [c]) r cs)"
| "parse_csv InQuoted f r (c # cs) =
    (if c = CHR 0x22 then parse_csv QuoteSeen f r cs
     else parse_csv InQuoted (f @ [c]) r cs)"
| "parse_csv QuoteSeen f r (c # cs) =
    (if c = CHR 0x22 then parse_csv InQuoted (f @ [c]) r cs
     else if c = CHR 0x0A then (r @ [f]) # parse_csv RecordStart [] [] cs
     else if c = CHR '','' then parse_csv FieldStart [] (r @ [f]) cs
     else parse_csv InField (f @ [c]) r cs)"

definition read_csv :: "string \<Rightarrow> dataframe option" where
  "read_csv text =
    (case parse_csv RecordStart [] [] text of
       [] \<Rightarrow> None
     | header # records \<Rightarrow> Some \<lparr>columns = header, rows = records\<rparr>)"

section \<open>Sample worlds\<close>

definition sample_frame :: dataframe where
  "sample_frame = \<lparr>columns = [''hgnc_symbol'', ''ensembl_gene_id''],
                    rows = [[''TP53'', ''ENSG00000141510'']]\<rparr>"

text \<open>A service whose first two answers are failures.\<close>

definition recovering_world :: world where
  "recovering_world =
    \<lparr>linesep = [CHR 0x0A],
     connect_outcome = (\<lambda>n host. None),
     answer = (\<lambda>n r. if n < 2 then Inl ''timeout'' else Inr sample_frame)\<rparr>"

text \<open>A service that cannot be reached.\<close>

definition unreachable_world :: world where
  "unreachable_world =
    \<lparr>linesep = [CHR 0x0A],
     connect_outcome = (\<lambda>n host. Some ''unreachable''),
     answer = (\<lambda>n r. Inr sample_frame)\<rparr>"

text \<open>A service that accepts the connection and fails every request.\<close>

definition failing_world :: world where
  "failing_world =
    \<lparr>linesep = [CHR 0x0A],
     connect_outcome = (\<lambda>n host. None),
     answer = (\<lambda>n r. Inl ''timeout'')\<rparr>"

text \<open>A two-column result in which a from-value occurs twice.\<close>

definition duplicate_frame :: dataframe where
  "duplicate_frame = \<lparr>columns = [''hgnc_symbol'', ''ensembl_gene_id''],
                       rows = [[''TP53'', ''ENSG00000000001''],
                               [''BRCA1'', ''ENSG00000012048''],
                               [''TP53'', ''ENSG00000141510'']]\<rparr>"

text \<open>A service that always answers with the same result.\<close>

definition steady_world :: world where
  "steady_world =
    \<lparr>linesep = [CHR 0x0A],
     connect_outcome = (\<lambda>n host. None),
     answer = (\<lambda>n r. Inr duplicate_frame)\<rparr>"

definition tp53_key :: translation_key where
  "tp53_key = (''ENSEMBL_MART_ENSEMBL'', ''hsapiens_gene_ensembl'', ''hgnc_symbol'',
               ''ensembl_gene_id'', ''TP53'')"

definition brca1_key :: translation_key where
  "brca1_key = (''ENSEMBL_MART_ENSEMBL'', ''hsapiens_gene_ensembl'', ''hgnc_symbol'',
               ''ensembl_gene_id'', ''BRCA1'')"

definition tp53_query :: request where
  "tp53_query = Query ''ENSEMBL_MART_ENSEMBL'' ''hsapiens_gene_ensembl''
                  [''hgnc_symbol'', ''ensembl_gene_id''] None"

text \<open>A service whose data change after its second answer.\<close>

definition stale_frame :: dataframe where
  "stale_frame = \<lparr>columns = [''hgnc_symbol'', ''ensembl_gene_id''],
                   rows = [[''TP53'', ''ENSG00000000001'']]\<rparr>"

definition changing_world :: world where
  "changing_world =
    \<lparr>linesep = [CHR 0x0A],
     connect_outcome = (\<lambda>n host. None),
     answer = (\<lambda>n r. if n < 2 then Inr stale_frame else Inr sample_frame)\<rparr>"

text \<open>A thousand calls of \<open>get_translation\<close> with targets \<open>x\<close>, \<open>xx\<close>, and so on.\<close>

definition filler :: "nat \<Rightarrow> translation_key" where
  "filler i = (''ENSEMBL_MART_ENSEMBL'', ''hsapiens_gene_ensembl'', ''hgnc_symbol'',
               ''ensembl_gene_id'', replicate (Suc i) (CHR ''x''))"

definition fillers :: "nat \<Rightarrow> call list" where
  "fillers n = map (\<lambda>i. CallGetTranslation (filler i)) [0..<n]"

text \<open>A service with an attribute listing.\<close>

definition attribute_frame :: dataframe where
  "attribute_frame =
    \<lparr>columns = [''name'', ''display_name'', ''description''],
     rows = [[''ensembl_gene_id'', ''Gene stable ID'', ''Stable ID of the Gene''],
             [''hsapiens_homolog_ensembl_gene'', ''Human gene stable ID'', ''''],
             [''go_id'', ''GO term accession'', ''''],
             [''affy_hg_u133a'', ''AFFY HG U133A probe'', ''''],
             [''hgnc_symbol'', ''HGNC symbol'', '''']]\<rparr>"

definition catalog_world :: world where
  "catalog_world =
    \<lparr>linesep = [CHR 0x0A],
     connect_outcome = (\<lambda>n host. None),
     answer = (\<lambda>n r. case r of ListAttributes m d \<Rightarrow> Inr attribute_frame
                              | _ \<Rightarrow> Inr duplicate_frame)\<rparr>"

text \<open>
  A result with a comma, double quotes, a line feed and empty cells, on a platform whose
  line separator is carriage return and line feed.
\<close>

definition tricky_frame :: dataframe where
  "tricky_frame =
    \<lparr>columns = [''name'', ''description''],
     rows = [[''TP53'', ''tumor protein, '' @ [CHR 0x22] @ ''p53'' @ [CHR 0x22]],
             [''BRCA1'', ''first line'' @ [CHR 0x0A] @ ''second line''],
             ['''', '''']]\<rparr>"

definition windows_world :: world where
  "windows_world =
    \<lparr>linesep = [CHR 0x0D, CHR 0x0A],
     connect_outcome = (\<lambda>n host. None),
     answer = (\<lambda>n r. Inr tricky_frame)\<rparr>"

text \<open>A result with a carriage return inside a cell.\<close>

definition cr_frame :: dataframe where
  "cr_frame =
    \<lparr>columns = [''name'', ''description''],
     rows = [[''TP53'', ''a'' @ [CHR 0x0D] @ ''b'']]\<rparr>"

definition cr_world :: world where
  "cr_world =
    \<lparr>linesep = [CHR 0x0A],
     connect_outcome = (\<lambda>n host. None),
     answer = (\<lambda>n r. Inr cr_frame)\<rparr>"

section \<open>Basic facts\<close>

lemmas eval_defs = get_data_try_def get_server_def get_server_body_def new_server_def fetch_def
  cache_get_def cache_put_def cache_touch_def print_stderr_def sleep_def log_failure_def
  wait_retry_def initial_state_def Let_def DEFAULT_HOST_def MAX_RETRIES_def RETRY_DELAY_def
  to_csv_def remove_cr_def csv_record_def csv_field_def double_quotes_def needs_quotes_def
  str_nat.simps digit_char_def

lemma upt_MAX_RETRIES: "[0..<MAX_RETRIES] = [0, 1, 2]"
  by (simp add: MAX_RETRIES_def upt_conv_Cons)

lemma new_server_state:
  "snd (new_server env host s) = s\<lparr>requests := requests s @ [Connect host]\<rparr>"
  by (simp add: new_server_def Let_def split: option.split)

lemma fetch_state:
  "snd (fetch env srv q s) = s\<lparr>requests := requests s @ [q]\<rparr>"
  by (simp add: fetch_def Let_def split: sum.split)

lemma fetch_result:
  "fst (fetch env srv q s) =
     (case answer env (length (requests s)) q of Inl msg \<Rightarrow> Raise msg | Inr df \<Rightarrow> Return df)"
  by (simp add: fetch_def Let_def split: sum.split)

lemma cache_get_touch [simp]: "cache_get k (cache_touch k v c) = Some v"
  by (simp add: cache_get_def cache_touch_def)

lemma cache_get_put [simp]: "cache_get k (cache_put n k v c) = Some v"
  by (simp add: cache_get_def cache_put_def)

lemma get_server_hit:
  "cache_get () (server_cache s) = Some srv \<Longrightarrow>
   get_server env s = (Return srv, s\<lparr>server_cache := cache_touch () srv (server_cache s)\<rparr>)"
  by (simp add: get_server_def)

lemma get_server_frame:
  "slept (snd (get_server env s)) = slept s \<and>
   translation_cache (snd (get_server env s)) = translation_cache s \<and>
   stderr (snd (get_server env s)) = stderr s @ connect_lines env s"
  by (auto simp: get_server_def get_server_body_def new_server_def Let_def print_stderr_def
        connect_lines_def split: option.split)

section \<open>\<open>get_data\<close>: the retry loop\<close>

lemma get_data_try_frame:
  "slept (snd (get_data_try env m d a f s)) = slept s \<and>
   translation_cache (snd (get_data_try env m d a f s)) = translation_cache s \<and>
   stderr (snd (get_data_try env m d a f s)) = stderr s @ connect_lines env s"
proof (cases "get_server env s")
  case (Pair r s1)
  with get_server_frame [of env s] have fr: "slept s1 = slept s"
    "translation_cache s1 = translation_cache s" "stderr s1 = stderr s @ connect_lines env s"
    by simp_all
  show ?thesis
  proof (cases r)
    case (Raise e)
    with Pair fr show ?thesis by (simp add: get_data_try_def)
  next
    case (Return srv)
    have "snd (get_data_try env m d a f s) = snd (fetch env srv (Query m d a (Some f)) s1)"
      using Pair Return by (simp add: get_data_try_def split: prod.split result.split)
    with fr show ?thesis by (simp add: fetch_state)
  qed
qed

lemma get_data_first:
  "get_data_try env m d a f s = (Return t, s1) \<Longrightarrow>
   get_data env m d a f s = (Return (Some t), s1)"
  unfolding get_data_def upt_MAX_RETRIES by simp

lemma get_data_second:
  "get_data_try env m d a f s = (Raise e0, s1) \<Longrightarrow>
   get_data_try env m d a f (wait_retry (log_failure 0 e0 s1)) = (Return t, s2) \<Longrightarrow>
   get_data env m d a f s = (Return (Some t), s2)"
  unfolding get_data_def upt_MAX_RETRIES by (simp add: MAX_RETRIES_def)

lemma get_data_third:
  "get_data_try env m d a f s = (Raise e0, s1) \<Longrightarrow>
   get_data_try env m d a f (wait_retry (log_failure 0 e0 s1)) = (Raise e1, s2) \<Longrightarrow>
   get_data_try env m d a f (wait_retry (log_failure 1 e1 s2)) = (Return t, s3) \<Longrightarrow>
   get_data env m d a f s = (Return (Some t), s3)"
  unfolding get_data_def upt_MAX_RETRIES by (simp add: MAX_RETRIES_def)

lemma get_data_exhausted:
  "get_data_try env m d a f s = (Raise e0, s1) \<Longrightarrow>
   get_data_try env m d a f (wait_retry (log_failure 0 e0 s1)) = (Raise e1, s2) \<Longrightarrow>
   get_data_try env m d a f (wait_retry (log_failure 1 e1 s2)) = (Raise e2, s3) \<Longrightarrow>
   get_data env m d a f s = (Return (Some (''Error: '' @ e2)), log_failure 2 e2 s3)"
  unfolding get_data_def upt_MAX_RETRIES by (simp add: MAX_RETRIES_def)

lemma get_data_try_Return:
  assumes "get_data_try env m d a f s = (Return text, s')"
  shows "\<exists>df. answer env (length (requests s') - 1) (Query m d a (Some f)) = Inr df \<and>
              text = remove_cr (to_csv (linesep env) df) \<and>
              requests s' = requests (snd (get_server env s)) @ [Query m d a (Some f)]"
proof (cases "get_server env s")
  case (Pair r s1)
  show ?thesis
  proof (cases r)
    case (Raise e)
    with Pair assms show ?thesis by (simp add: get_data_try_def)
  next
    case (Return srv)
    show ?thesis
    proof (cases "answer env (length (requests s1)) (Query m d a (Some f))")
      case (Inl msg)
      with Pair Return assms show ?thesis by (simp add: get_data_try_def fetch_def Let_def)
    next
      case (Inr df)
      with Pair Return assms show ?thesis
        by (auto simp: get_data_try_def fetch_def Let_def)
    qed
  qed
qed

text \<open>
  Claim C5. When the passes before pass \<open>k\<close> of the loop fail and pass \<open>k\<close> (one of the
  three) succeeds, \<open>get_data\<close> returns the text of that pass, which is the normalized
  table of the answer to the query of that pass alone, and ends in the state that pass
  leaves: no later pass runs and nothing of an earlier pass is in the result.
\<close>

theorem get_data_returns_first_success:
  assumes "k < MAX_RETRIES"
    and "\<forall>i<k. \<exists>e. fst (get_data_try env m d a f (attempt_state env m d a f i s)) = Raise e"
    and "get_data_try env m d a f (attempt_state env m d a f k s) = (Return text, s')"
  shows "get_data env m d a f s = (Return (Some text), s') \<and>
         (\<exists>df. answer env (length (requests s') - 1) (Query m d a (Some f)) = Inr df \<and>
               text = remove_cr (to_csv (linesep env) df))"
proof -
  from assms(1) have "k = 0 \<or> k = 1 \<or> k = 2"
    unfolding MAX_RETRIES_def by arith
  then consider "k = 0" | "k = 1" | "k = 2"
    by blast
  then have "get_data env m d a f s = (Return (Some text), s')"
  proof cases
    case 1
    with assms(3) show ?thesis by (simp add: get_data_first)
  next
    case 2
    then have "0 < k" by simp
    with assms(2)
    have "\<exists>e. fst (get_data_try env m d a f (attempt_state env m d a f 0 s)) = Raise e"
      by blast
    then obtain e0 where "fst (get_data_try env m d a f s) = Raise e0" by auto
    then obtain s1 where t0: "get_data_try env m d a f s = (Raise e0, s1)"
      by (cases "get_data_try env m d a f s") auto
    with assms(3) 2 show ?thesis by (simp add: get_data_second)
  next
    case 3
    then have lt: "0 < k" "Suc 0 < k" by simp_all
    from assms(2) lt(1)
    have "\<exists>e. fst (get_data_try env m d a f (attempt_state env m d a f 0 s)) = Raise e"
      by blast
    then obtain e0 where "fst (get_data_try env m d a f s) = Raise e0" by auto
    then obtain s1 where t0: "get_data_try env m d a f s = (Raise e0, s1)"
      by (cases "get_data_try env m d a f s") auto
    from assms(2) lt(2)
    have "\<exists>e. fst (get_data_try env m d a f (attempt_state env m d a f (Suc 0) s)) = Raise e"
      by blast
    then obtain e1 where
      "fst (get_data_try env m d a f (attempt_state env m d a f (Suc 0) s)) = Raise e1"
      by blast
    with t0 obtain s2 where
      t1: "get_data_try env m d a f (wait_retry (log_failure 0 e0 s1)) = (Raise e1, s2)"
      by (cases "get_data_try env m d a f (wait_retry (log_failure 0 e0 s1))") auto
    from assms(3) 3 t0 t1 show ?thesis
      by (simp add: get_data_third numeral_2_eq_2)
  qed
  with get_data_try_Return [OF assms(3)] show ?thesis by blast
qed

theorem get_data_returns_first_success_witness:
  "fst (get_data recovering_world ''mart'' ''ds'' [''hgnc_symbol'', ''ensembl_gene_id''] []
          initial_state) =
     Return (Some (''hgnc_symbol,ensembl_gene_id'' @ [CHR 0x0A]
                   @ ''TP53,ENSG00000141510'' @ [CHR 0x0A]))"
proof -
  let ?a = "[''hgnc_symbol'', ''ensembl_gene_id'']"
  let ?text = "''hgnc_symbol,ensembl_gene_id'' @ [CHR 0x0A] @ ''TP53,ENSG00000141510'' @ [CHR 0x0A]"
  have h1: "(1::nat) < MAX_RETRIES" by (simp add: MAX_RETRIES_def)
  have h2: "\<forall>i<1. \<exists>e. fst (get_data_try recovering_world ''mart'' ''ds'' ?a []
                 (attempt_state recovering_world ''mart'' ''ds'' ?a [] i initial_state)) = Raise e"
    by (simp add: eval_defs recovering_world_def)
  have "fst (get_data_try recovering_world ''mart'' ''ds'' ?a []
                 (attempt_state recovering_world ''mart'' ''ds'' ?a [] 1 initial_state))
          = Return ?text"
    by (simp add: eval_defs recovering_world_def sample_frame_def)
  then obtain s' where h3: "get_data_try recovering_world ''mart'' ''ds'' ?a []
                 (attempt_state recovering_world ''mart'' ''ds'' ?a [] 1 initial_state)
          = (Return ?text, s')"
    by (metis prod.collapse)
  from get_data_returns_first_success [OF h1 h2 h3] show ?thesis by simp
qed

lemma log_failure_frame [simp]:
  "slept (log_failure i e s) = slept s"
  "server_cache (log_failure i e s) = server_cache s"
  "requests (log_failure i e s) = requests s"
  "translation_cache (log_failure i e s) = translation_cache s"
  by (simp_all add: log_failure_def print_stderr_def)

lemma wait_retry_frame [simp]:
  "slept (wait_retry s) = slept s @ [2]"
  "server_cache (wait_retry s) = server_cache s"
  "requests (wait_retry s) = requests s"
  "translation_cache (wait_retry s) = translation_cache s"
  by (simp_all add: wait_retry_def print_stderr_def sleep_def RETRY_DELAY_def)

lemma log_failure_stderr:
  "stderr (log_failure i e s) =
     stderr s @ [''Error getting data (attempt '' @ str_nat (i + 1) @ ''/3): '' @ e]"
  by (simp add: log_failure_def print_stderr_def MAX_RETRIES_def str_nat.simps [of 3] digit_char_def)

lemma wait_retry_stderr:
  "stderr (wait_retry s) = stderr s @ [''Retrying in 2 seconds...'']"
  by (simp add: wait_retry_def print_stderr_def sleep_def RETRY_DELAY_def str_nat.simps [of 2] digit_char_def)

lemma connect_lines_cached:
  "cache_get () (server_cache s) = Some srv \<Longrightarrow> connect_lines env s = []"
  by (simp add: connect_lines_def get_server_hit)

lemma get_data_try_keeps_server:
  assumes "cache_get () (server_cache s) = Some srv"
  shows "cache_get () (server_cache (snd (get_data_try env m d a f s))) = Some srv"
  using assms by (simp add: get_data_try_def get_server_hit fetch_def Let_def split: sum.split)

lemma get_data_all_fail:
  assumes "\<forall>i<MAX_RETRIES.
             fst (get_data_try env m d a f (attempt_state env m d a f i s)) = Raise (e i)"
  shows "fst (get_data env m d a f s) = Return (Some (''Error: '' @ e 2))"
proof -
  let ?pass = "get_data_try env m d a f"
  let ?st = "attempt_state env m d a f"
  have "0 < MAX_RETRIES" "Suc 0 < MAX_RETRIES" "Suc (Suc 0) < MAX_RETRIES"
    by (simp_all add: MAX_RETRIES_def)
  with assms have a0: "fst (?pass (?st 0 s)) = Raise (e 0)"
    and a1': "fst (?pass (?st (Suc 0) s)) = Raise (e (Suc 0))"
    and a2': "fst (?pass (?st (Suc (Suc 0)) s)) = Raise (e (Suc (Suc 0)))"
    by blast+
  from a1' have a1: "fst (?pass (?st (Suc 0) s)) = Raise (e 1)" by simp
  from a2' have a2: "fst (?pass (?st (Suc (Suc 0)) s)) = Raise (e 2)"
    by (simp add: numeral_2_eq_2)
  from a0 obtain s1 where t0: "?pass s = (Raise (e 0), s1)"
    by (cases "?pass s") auto
  let ?s1' = "wait_retry (log_failure 0 (e 0) s1)"
  have st1: "?st (Suc 0) s = ?s1'" using t0 by simp
  with a1 obtain s2 where t1: "?pass ?s1' = (Raise (e 1), s2)"
    by (cases "?pass ?s1'") auto
  let ?s2' = "wait_retry (log_failure 1 (e 1) s2)"
  have st2: "?st (Suc (Suc 0)) s = ?s2'" using t0 t1 by simp
  with a2 obtain s3 where t2: "?pass ?s2' = (Raise (e 2), s3)"
    by (cases "?pass ?s2'") auto
  have "get_data env m d a f s = (Return (Some (''Error: '' @ e 2)), log_failure 2 (e 2) s3)"
    using t0 t1 t2 by (rule get_data_exhausted)
  then show ?thesis by simp
qed

text \<open>
  Claim C4 (amended). When all three passes of the loop fail, \<open>get_data\<close> returns
  \<open>Error:\<close> followed by the message of the third failure and raises nothing, sleeps
  2 seconds twice, and writes three failure entries and two retry notices, each pass that
  failed while connecting adding the entry of \<open>get_server\<close> before its own. With a
  cached connection the five entries are all that is written.
\<close>

theorem get_data_gives_up_after_three:
  assumes "\<forall>i<MAX_RETRIES.
             fst (get_data_try env m d a f (attempt_state env m d a f i s)) = Raise (e i)"
  shows "fst (get_data env m d a f s) = Return (Some (''Error: '' @ e 2)) \<and>
         slept (snd (get_data env m d a f s)) = slept s @ [2, 2] \<and>
         stderr (snd (get_data env m d a f s)) =
           stderr s
           @ connect_lines env (attempt_state env m d a f 0 s)
           @ [''Error getting data (attempt 1/3): '' @ e 0, ''Retrying in 2 seconds...'']
           @ connect_lines env (attempt_state env m d a f 1 s)
           @ [''Error getting data (attempt 2/3): '' @ e 1, ''Retrying in 2 seconds...'']
           @ connect_lines env (attempt_state env m d a f 2 s)
           @ [''Error getting data (attempt 3/3): '' @ e 2] \<and>
         (cache_get () (server_cache s) \<noteq> None \<longrightarrow>
          stderr (snd (get_data env m d a f s)) =
           stderr s
           @ [''Error getting data (attempt 1/3): '' @ e 0, ''Retrying in 2 seconds...'',
              ''Error getting data (attempt 2/3): '' @ e 1, ''Retrying in 2 seconds...'',
              ''Error getting data (attempt 3/3): '' @ e 2])"
proof -
  let ?pass = "get_data_try env m d a f"
  let ?st = "attempt_state env m d a f"
  have "0 < MAX_RETRIES" "Suc 0 < MAX_RETRIES" "Suc (Suc 0) < MAX_RETRIES"
    by (simp_all add: MAX_RETRIES_def)
  with assms have a0: "fst (?pass (?st 0 s)) = Raise (e 0)"
    and a1': "fst (?pass (?st (Suc 0) s)) = Raise (e (Suc 0))"
    and a2': "fst (?pass (?st (Suc (Suc 0)) s)) = Raise (e (Suc (Suc 0)))"
    by blast+
  from a1' have a1: "fst (?pass (?st (Suc 0) s)) = Raise (e 1)" by simp
  from a2' have a2: "fst (?pass (?st (Suc (Suc 0)) s)) = Raise (e 2)"
    by (simp add: numeral_2_eq_2)
  from a0 obtain s1 where t0: "?pass s = (Raise (e 0), s1)"
    by (cases "?pass s") auto
  let ?s1' = "wait_retry (log_failure 0 (e 0) s1)"
  have st1: "?st (Suc 0) s = ?s1'" using t0 by simp
  with a1 obtain s2 where t1: "?pass ?s1' = (Raise (e 1), s2)"
    by (cases "?pass ?s1'") auto
  let ?s2' = "wait_retry (log_failure 1 (e 1) s2)"
  have st2: "?st (Suc (Suc 0)) s = ?s2'" using t0 t1 by simp
  with a2 obtain s3 where t2: "?pass ?s2' = (Raise (e 2), s3)"
    by (cases "?pass ?s2'") auto
  have res: "get_data env m d a f s = (Return (Some (''Error: '' @ e 2)), log_failure 2 (e 2) s3)"
    using t0 t1 t2 by (rule get_data_exhausted)
  have f1: "slept s1 = slept s" "stderr s1 = stderr s @ connect_lines env s"
    using get_data_try_frame [of env m d a f s] t0 by simp_all
  have f2: "slept s2 = slept ?s1'" "stderr s2 = stderr ?s1' @ connect_lines env ?s1'"
    using get_data_try_frame [of env m d a f ?s1'] t1 by simp_all
  have f3: "slept s3 = slept ?s2'" "stderr s3 = stderr ?s2' @ connect_lines env ?s2'"
    using get_data_try_frame [of env m d a f ?s2'] t2 by simp_all
  have sl: "slept (log_failure 2 (e 2) s3) = slept s @ [2, 2]"
    using f1 f2 f3 by simp
  have err: "stderr (log_failure 2 (e 2) s3) =
           stderr s
           @ connect_lines env s
           @ [''Error getting data (attempt 1/3): '' @ e 0, ''Retrying in 2 seconds...'']
           @ connect_lines env ?s1'
           @ [''Error getting data (attempt 2/3): '' @ e 1, ''Retrying in 2 seconds...'']
           @ connect_lines env ?s2'
           @ [''Error getting data (attempt 3/3): '' @ e 2]"
    using f1 f2 f3
    by (simp add: log_failure_stderr wait_retry_stderr str_nat.simps digit_char_def)
  have cached: "stderr (log_failure 2 (e 2) s3) =
           stderr s
           @ [''Error getting data (attempt 1/3): '' @ e 0, ''Retrying in 2 seconds...'',
              ''Error getting data (attempt 2/3): '' @ e 1, ''Retrying in 2 seconds...'',
              ''Error getting data (attempt 3/3): '' @ e 2]"
    if "cache_get () (server_cache s) \<noteq> None"
  proof -
    from that obtain srv where c0: "cache_get () (server_cache s) = Some srv" by auto
    from get_data_try_keeps_server [OF c0, of env m d a f] t0
    have c1: "cache_get () (server_cache ?s1') = Some srv" by simp
    from get_data_try_keeps_server [OF c1, of env m d a f] t1
    have c2: "cache_get () (server_cache ?s2') = Some srv" by simp
    from err connect_lines_cached [OF c0] connect_lines_cached [OF c1]
      connect_lines_cached [OF c2]
    show ?thesis by simp
  qed
  have n: "?st 1 s = ?s1'" "?st 2 s = ?s2'"
    using st1 st2 by (simp_all add: numeral_2_eq_2)
  from res sl err cached n show ?thesis by simp
qed

theorem get_data_gives_up_after_three_witness:
  "fst (get_data failing_world ''mart'' ''ds'' [''hgnc_symbol''] [] initial_state) =
     Return (Some ''Error: timeout'') \<and>
   slept (snd (get_data failing_world ''mart'' ''ds'' [''hgnc_symbol''] [] initial_state)) = [2, 2] \<and>
   stderr (snd (get_data failing_world ''mart'' ''ds'' [''hgnc_symbol''] [] initial_state)) =
     [''Error getting data (attempt 1/3): timeout'', ''Retrying in 2 seconds...'',
      ''Error getting data (attempt 2/3): timeout'', ''Retrying in 2 seconds...'',
      ''Error getting data (attempt 3/3): timeout'']"
proof -
  let ?st = "attempt_state failing_world ''mart'' ''ds'' [''hgnc_symbol''] []"
  have h: "\<forall>i<MAX_RETRIES. fst (get_data_try failing_world ''mart'' ''ds'' [''hgnc_symbol''] []
              (?st i initial_state)) = Raise ((\<lambda>i. ''timeout'') i)"
    by (auto simp: get_data_try_def get_server_def get_server_body_def new_server_def fetch_def
          Let_def failing_world_def split: prod.split result.split option.split)
  have c: "connect_lines failing_world (?st 0 initial_state) = []"
    "connect_lines failing_world (?st 1 initial_state) = []"
    "connect_lines failing_world (?st 2 initial_state) = []"
    by (simp_all add: connect_lines_def eval_defs failing_world_def numeral_2_eq_2)
  have i: "slept initial_state = []" "stderr initial_state = []"
    by (simp_all add: initial_state_def)
  from get_data_gives_up_after_three [OF h] c i show ?thesis by simp
qed

text \<open>
  Claim C4 as stated fails when the service cannot be reached: eight entries are written,
  three of them by \<open>get_server\<close>.
\<close>

theorem get_data_unreachable_counterexample:
  "fst (get_data_try unreachable_world ''mart'' ''ds'' [''hgnc_symbol''] []
         (attempt_state unreachable_world ''mart'' ''ds'' [''hgnc_symbol''] [] 0 initial_state))
     = Raise ''unreachable'' \<and>
   fst (get_data_try unreachable_world ''mart'' ''ds'' [''hgnc_symbol''] []
         (attempt_state unreachable_world ''mart'' ''ds'' [''hgnc_symbol''] [] 1 initial_state))
     = Raise ''unreachable'' \<and>
   fst (get_data_try unreachable_world ''mart'' ''ds'' [''hgnc_symbol''] []
         (attempt_state unreachable_world ''mart'' ''ds'' [''hgnc_symbol''] [] 2 initial_state))
     = Raise ''unreachable'' \<and>
   fst (get_data unreachable_world ''mart'' ''ds'' [''hgnc_symbol''] [] initial_state) =
     Return (Some ''Error: unreachable'') \<and>
   stderr (snd (get_data unreachable_world ''mart'' ''ds'' [''hgnc_symbol''] [] initial_state)) =
     [''Error connecting to Biomart server: unreachable'',
      ''Error getting data (attempt 1/3): unreachable'', ''Retrying in 2 seconds...'',
      ''Error connecting to Biomart server: unreachable'',
      ''Error getting data (attempt 2/3): unreachable'', ''Retrying in 2 seconds...'',
      ''Error connecting to Biomart server: unreachable'',
      ''Error getting data (attempt 3/3): unreachable''] \<and>
   length (stderr (snd (get_data unreachable_world ''mart'' ''ds'' [''hgnc_symbol''] []
                          initial_state))) \<noteq> 3 + 2"
  unfolding get_data_def upt_MAX_RETRIES
  by (simp add: eval_defs unreachable_world_def numeral_2_eq_2)

section \<open>\<open>get_translation\<close> and its cache\<close>

lemma get_server_requests:
  "\<exists>extra. requests (snd (get_server env s)) = requests s @ extra \<and>
           (cache_get () (server_cache s) \<noteq> None \<longrightarrow> extra = []) \<and>
           (cache_get () (server_cache s) = None \<longrightarrow> extra = [Connect DEFAULT_HOST])"
  by (auto simp: get_server_def get_server_body_def new_server_def Let_def print_stderr_def
        split: option.split)

lemma get_translation_try_cache:
  "translation_cache (snd (get_translation_try env key s)) = translation_cache s"
proof (cases key)
  case (fields m d fa ta target)
  obtain r s1 where gs: "get_server env s = (r, s1)" by (cases "get_server env s")
  with get_server_frame [of env s] have fr: "translation_cache s1 = translation_cache s"
    by simp
  show ?thesis
  proof (cases r)
    case (Raise e)
    with gs fr fields show ?thesis by (simp add: get_translation_try_def)
  next
    case (Return srv)
    obtain r2 s2 where ft: "fetch env srv (Query m d [fa, ta] None) s1 = (r2, s2)"
      by (cases "fetch env srv (Query m d [fa, ta] None) s1")
    with fetch_state [of env srv "Query m d [fa, ta] None" s1] fr
    have fr2: "translation_cache s2 = translation_cache s" by simp
    from gs Return ft fr2 fields show ?thesis
      by (simp add: get_translation_try_def Let_def print_stderr_def
            split: result.split option.split)
  qed
qed

lemma get_translation_body_returns:
  "\<exists>v s1. get_translation_body env key s = (Return v, s1) \<and>
          translation_cache s1 = translation_cache s"
proof (cases "get_translation_try env key s")
  case (Pair r s1)
  with get_translation_try_cache [of env key s]
  have "translation_cache s1 = translation_cache s" by simp
  with Pair show ?thesis
    by (cases r) (simp_all add: get_translation_body_def print_stderr_def)
qed

lemma get_translation_hit:
  "cache_get key (translation_cache s) = Some v \<Longrightarrow>
   get_translation env key s =
     (Return v, s\<lparr>translation_cache := cache_touch key v (translation_cache s)\<rparr>)"
  by (simp add: get_translation_def)

lemma get_translation_miss:
  assumes "cache_get key (translation_cache s) = None"
  shows "\<exists>v s1. get_translation_body env key s = (Return v, s1) \<and>
           get_translation env key s =
             (Return v, s1\<lparr>translation_cache := cache_put 1000 key v (translation_cache s)\<rparr>)"
proof -
  from get_translation_body_returns [of env key s] obtain v s1 where
    "get_translation_body env key s = (Return v, s1)" "translation_cache s1 = translation_cache s"
    by blast
  with assms show ?thesis by (simp add: get_translation_def)
qed

lemma get_translation_returns:
  "\<exists>v. fst (get_translation env key s) = Return v"
proof (cases "cache_get key (translation_cache s)")
  case None
  from get_translation_miss [OF None, of env] show ?thesis by auto
next
  case (Some v)
  then show ?thesis by (simp add: get_translation_hit)
qed

lemma get_translation_stores:
  "fst (get_translation env key s) = Return v \<Longrightarrow>
   cache_get key (translation_cache (snd (get_translation env key s))) = Some v"
proof (cases "cache_get key (translation_cache s)")
  case None
  assume "fst (get_translation env key s) = Return v"
  with get_translation_miss [OF None, of env] show ?thesis by auto
next
  case (Some w)
  assume "fst (get_translation env key s) = Return v"
  with Some show ?thesis by (simp add: get_translation_hit)
qed

lemma dict_fold:
  "fold (\<lambda>(k, v) m. m(k \<mapsto> v)) ps m = m ++ map_of (rev ps)"
  by (induction ps arbitrary: m) (auto simp: map_add_upd_left fun_eq_iff map_add_def split: option.split)

lemma dict_map_of: "dict ps = map_of (rev ps)"
  by (simp add: dict_def dict_fold)

lemma dict_last_wins:
  assumes "k \<notin> fst ` set post"
  shows "dict (pre @ (k, v) # post) k = Some v"
proof -
  from assms have "map_of (rev post) k = None"
    by (simp add: map_of_eq_None_iff)
  then show ?thesis
    by (simp add: dict_map_of map_add_def)
qed

lemma dict_dom: "dom (dict ps) = fst ` set ps"
  by (simp add: dict_map_of dom_map_of_conv_image_fst)

lemmas translation_defs = get_translation_def get_translation_body_def get_translation_try_def
  iloc_column_def dict_def

lemma get_translation_try_built:
  assumes "get_server env s = (Return srv, s1)"
    and "answer env (length (requests s1)) (Query m d [fa, ta] None) = Inr df"
    and "iloc_column df 0 = Return froms"
    and "iloc_column df 1 = Return tos"
  shows "fst (get_translation_try env (m, d, fa, ta, target) s) =
          (case dict (zip froms tos) target of
             None \<Rightarrow> Return (''Error: Target '' @ [CHR 0x27] @ target @ [CHR 0x27] @ '' not found'')
           | Some v \<Rightarrow> Return v)"
  using assms by (simp add: get_translation_try_def fetch_def Let_def split: option.split)

text \<open>
  Claim C8. When a call of \<open>get_translation\<close> builds the mapping (no cached entry,
  a connection, an answer with two columns), the mapping binds every from-value to the
  to-value of the last record that holds it; a target that is a key of the mapping gives
  the bare to-value, and a target that is no key gives the string
  \<open>Error: Target '<target>' not found\<close>, and nothing is raised.
\<close>

theorem get_translation_lookup:
  assumes "cache_get (m, d, fa, ta, target) (translation_cache s) = None"
    and "get_server env s = (Return srv, s1)"
    and "answer env (length (requests s1)) (Query m d [fa, ta] None) = Inr df"
    and "iloc_column df 0 = Return froms"
    and "iloc_column df 1 = Return tos"
  shows "(\<forall>pre k v post. zip froms tos = pre @ (k, v) # post \<and> k \<notin> fst ` set post
            \<longrightarrow> dict (zip froms tos) k = Some v) \<and>
         (\<forall>v. dict (zip froms tos) target = Some v
            \<longrightarrow> fst (get_translation env (m, d, fa, ta, target) s) = Return v) \<and>
         (target \<notin> dom (dict (zip froms tos))
            \<longrightarrow> fst (get_translation env (m, d, fa, ta, target) s) =
                  Return (''Error: Target '' @ [CHR 0x27] @ target @ [CHR 0x27] @ '' not found''))"
proof -
  let ?key = "(m, d, fa, ta, target)"
  have body: "fst (get_translation env ?key s) = fst (get_translation_try env ?key s)"
  proof (cases "get_translation_try env ?key s")
    case (Pair r s2)
    from get_translation_try_built [OF assms(2-5), of target] Pair
    obtain v where "r = Return v" by (auto split: option.splits)
    with Pair assms(1) show ?thesis
      by (simp add: get_translation_def get_translation_body_def)
  qed
  have last: "\<forall>pre k v post. zip froms tos = pre @ (k, v) # post \<and> k \<notin> fst ` set post
            \<longrightarrow> dict (zip froms tos) k = Some v"
    by (auto simp: dict_last_wins)
  from body get_translation_try_built [OF assms(2-5), of target] last
  show ?thesis by (auto simp: dom_def)
qed

theorem get_translation_lookup_witness:
  "fst (get_translation steady_world tp53_key initial_state) = Return ''ENSG00000141510'' \<and>
   fst (get_translation steady_world
          (''ENSEMBL_MART_ENSEMBL'', ''hsapiens_gene_ensembl'', ''hgnc_symbol'',
           ''ensembl_gene_id'', ''XYZ'') initial_state) = Return ''Error: Target 'XYZ' not found''"
proof -
  let ?s1 = "snd (get_server steady_world initial_state)"
  let ?froms = "[''TP53'', ''BRCA1'', ''TP53'']"
  let ?tos = "[''ENSG00000000001'', ''ENSG00000012048'', ''ENSG00000141510'']"
  have miss: "cache_get (''ENSEMBL_MART_ENSEMBL'', ''hsapiens_gene_ensembl'', ''hgnc_symbol'',
           ''ensembl_gene_id'', t) (translation_cache initial_state) = None" for t
    by (simp add: cache_get_def initial_state_def)
  have srv: "get_server steady_world initial_state = (Return 0, ?s1)"
    by (simp add: eval_defs steady_world_def)
  have ans: "answer steady_world (length (requests ?s1))
               (Query ''ENSEMBL_MART_ENSEMBL'' ''hsapiens_gene_ensembl''
                  [''hgnc_symbol'', ''ensembl_gene_id''] None) = Inr duplicate_frame"
    by (simp add: steady_world_def)
  have c0: "iloc_column duplicate_frame 0 = Return ?froms"
    and c1: "iloc_column duplicate_frame 1 = Return ?tos"
    by (simp_all add: iloc_column_def duplicate_frame_def)
  have d1: "dict (zip ?froms ?tos) ''TP53'' = Some ''ENSG00000141510''"
    and d2: "''XYZ'' \<notin> dom (dict (zip ?froms ?tos))"
    by (simp_all add: dict_def dom_def)
  from get_translation_lookup [OF miss srv ans c0 c1, of "''TP53''"] d1
    get_translation_lookup [OF miss srv ans c0 c1, of "''XYZ''"] d2
  show ?thesis by (simp add: tp53_key_def)
qed

lemma run_append: "run env (cs @ ds) s = run env ds (run env cs s)"
  by (induction cs arbitrary: s) simp_all

lemma snd_some_result [simp]: "snd (some_result p) = snd p"
  by (cases p) (simp add: some_result_def split: result.split)

lemma fst_some_result [simp]:
  "fst (some_result p) = (case fst p of Raise e \<Rightarrow> Raise e | Return v \<Rightarrow> Return (Some v))"
  by (cases p) (simp add: some_result_def split: result.split)

lemma get_translation_hit_requests:
  "cache_get key (translation_cache s) = Some v \<Longrightarrow>
   fst (get_translation env key s) = Return v \<and>
   requests (snd (get_translation env key s)) = requests s \<and>
   stderr (snd (get_translation env key s)) = stderr s \<and>
   cache_get key (translation_cache (snd (get_translation env key s))) = Some v"
  by (simp add: get_translation_hit)

lemma repeated_hits:
  "cache_get key (translation_cache s) = Some v \<Longrightarrow>
   requests (run env (replicate n (CallGetTranslation key)) s) = requests s \<and>
   cache_get key (translation_cache (run env (replicate n (CallGetTranslation key)) s)) = Some v"
proof (induction n arbitrary: s)
  case 0
  then show ?case by simp
next
  case (Suc n)
  let ?s' = "snd (get_translation env key s)"
  from get_translation_hit_requests [OF Suc.prems, of env]
  have h: "requests ?s' = requests s" "cache_get key (translation_cache ?s') = Some v"
    by simp_all
  from Suc.IH [OF h(2)] h(1) show ?case
    by simp
qed

lemma get_translation_try_requests:
  "\<exists>extra. requests (snd (get_translation_try env key s)) = requests s @ extra \<and>
           length (filter is_query extra) \<le> 1 \<and>
           (\<forall>srv s1. get_server env s = (Return srv, s1) \<longrightarrow>
              filter is_query extra =
                (case key of (m, d, fa, ta, target) \<Rightarrow> [Query m d [fa, ta] None]))"
proof (cases key)
  case (fields m d fa ta target)
  obtain r s1 where gs: "get_server env s = (r, s1)" by (cases "get_server env s")
  from get_server_requests [of env s] gs obtain extra where
    ex: "requests s1 = requests s @ extra" "extra = [] \<or> extra = [Connect DEFAULT_HOST]"
    by (cases "cache_get () (server_cache s)") auto
  then have nq: "filter is_query extra = []" by auto
  show ?thesis
  proof (cases r)
    case (Raise e)
    with gs fields ex nq show ?thesis by (simp add: get_translation_try_def)
  next
    case (Return srv)
    obtain r2 s2 where ft: "fetch env srv (Query m d [fa, ta] None) s1 = (r2, s2)"
      by (cases "fetch env srv (Query m d [fa, ta] None) s1")
    with fetch_state [of env srv "Query m d [fa, ta] None" s1]
    have "requests s2 = requests s @ extra @ [Query m d [fa, ta] None]"
      using ex by simp
    moreover have "requests (snd (get_translation_try env key s)) = requests s2"
      using gs Return ft fields
      by (simp add: get_translation_try_def Let_def print_stderr_def
            split: result.split option.split)
    ultimately show ?thesis using nq gs Return fields by simp
  qed
qed

lemma get_translation_miss_requests:
  assumes "cache_get key (translation_cache s) = None"
  shows "requests (snd (get_translation env key s)) = requests (snd (get_translation_try env key s))"
proof -
  obtain r s1 where t: "get_translation_try env key s = (r, s1)"
    by (cases "get_translation_try env key s")
  then show ?thesis using assms
    by (cases r) (simp_all add: get_translation_def get_translation_body_def print_stderr_def)
qed

text \<open>
  Claim C1 (amended). The cache stores the returned string under all five arguments.
  From a state without an entry for the five arguments, the first call sends at most one
  query (exactly the query of its four-tuple when a connection is obtained), and every
  call of any run of further calls with the same five arguments is a cache hit: it sends
  no request and returns the string of the first call.
\<close>

theorem repeated_translation_one_query:
  assumes "cache_get key (translation_cache s) = None"
  shows "\<exists>v extra.
          fst (get_translation env key s) = Return v \<and>
          cache_get key (translation_cache (snd (get_translation env key s))) = Some v \<and>
          requests (snd (get_translation env key s)) = requests s @ extra \<and>
          length (filter is_query extra) \<le> 1 \<and>
          (\<forall>srv s1. get_server env s = (Return srv, s1) \<longrightarrow>
             filter is_query extra =
               (case key of (m, d, fa, ta, target) \<Rightarrow> [Query m d [fa, ta] None])) \<and>
          (\<forall>n. requests (run env (replicate n (CallGetTranslation key))
                           (snd (get_translation env key s)))
                 = requests (snd (get_translation env key s)) \<and>
               fst (perform env (CallGetTranslation key)
                      (run env (replicate n (CallGetTranslation key))
                         (snd (get_translation env key s)))) = Return (Some v))"
proof -
  let ?s1 = "snd (get_translation env key s)"
  from get_translation_returns [of env key s] obtain v where
    v: "fst (get_translation env key s) = Return v" by blast
  then have st: "cache_get key (translation_cache ?s1) = Some v"
    by (rule get_translation_stores)
  from get_translation_try_requests [of env key s] get_translation_miss_requests [OF assms, of env]
  obtain extra where ex: "requests ?s1 = requests s @ extra"
    "length (filter is_query extra) \<le> 1"
    "\<forall>srv s1. get_server env s = (Return srv, s1) \<longrightarrow>
       filter is_query extra = (case key of (m, d, fa, ta, target) \<Rightarrow> [Query m d [fa, ta] None])"
    by auto
  have rep: "requests (run env (replicate n (CallGetTranslation key)) ?s1) = requests ?s1 \<and>
             fst (perform env (CallGetTranslation key)
                    (run env (replicate n (CallGetTranslation key)) ?s1)) = Return (Some v)" for n
  proof -
    from repeated_hits [OF st, of env n]
    have h: "requests (run env (replicate n (CallGetTranslation key)) ?s1) = requests ?s1"
      "cache_get key (translation_cache (run env (replicate n (CallGetTranslation key)) ?s1)) = Some v"
      by simp_all
    from get_translation_hit_requests [OF h(2), of env] h(1) show ?thesis
      by simp
  qed
  from v st ex rep show ?thesis by blast
qed

theorem repeated_translation_one_query_witness:
  "requests (run steady_world (replicate 5 (CallGetTranslation tp53_key))
               (snd (get_translation steady_world tp53_key initial_state)))
     = [Connect DEFAULT_HOST, tp53_query] \<and>
   fst (perform steady_world (CallGetTranslation tp53_key)
          (run steady_world (replicate 5 (CallGetTranslation tp53_key))
             (snd (get_translation steady_world tp53_key initial_state))))
     = Return (Some ''ENSG00000141510'')"
proof -
  have miss: "cache_get tp53_key (translation_cache initial_state) = None"
    by (simp add: cache_get_def initial_state_def)
  have first: "fst (get_translation steady_world tp53_key initial_state) = Return ''ENSG00000141510''"
    "requests (snd (get_translation steady_world tp53_key initial_state))
       = [Connect DEFAULT_HOST, tp53_query]"
    by (simp_all add: translation_defs eval_defs steady_world_def tp53_key_def tp53_query_def
          duplicate_frame_def)
  from repeated_translation_one_query [OF miss, of steady_world] first
  show ?thesis by auto
qed

text \<open>
  Claim C1 as stated fails: two calls that share the four-tuple and differ in the target
  send two queries.
\<close>

theorem different_targets_counterexample:
  "fst (get_translation steady_world tp53_key initial_state) = Return ''ENSG00000141510'' \<and>
   fst (get_translation steady_world brca1_key
          (snd (get_translation steady_world tp53_key initial_state))) = Return ''ENSG00000012048'' \<and>
   requests (run steady_world [CallGetTranslation tp53_key, CallGetTranslation brca1_key]
               initial_state)
     = [Connect DEFAULT_HOST, tp53_query, tp53_query] \<and>
   length (filter is_query
             (requests (run steady_world [CallGetTranslation tp53_key, CallGetTranslation brca1_key]
                          initial_state))) = 2"
  by (simp add: translation_defs eval_defs steady_world_def tp53_key_def brca1_key_def
        tp53_query_def duplicate_frame_def)

text \<open>
  Claim C3 (amended). A call of \<open>get_translation\<close> that finds no cached entry and
  fails while building the mapping returns \<open>Error:\<close> followed by the message, and this
  string is stored under the five arguments like any returned value: the next call with
  the same arguments returns it again and sends no request, whatever the service would
  answer by then.
\<close>

theorem translation_failure_is_cached:
  assumes "cache_get key (translation_cache s) = None"
    and "fst (get_translation_try env key s) = Raise e"
  shows "fst (get_translation env key s) = Return (''Error: '' @ e) \<and>
         cache_get key (translation_cache (snd (get_translation env key s)))
           = Some (''Error: '' @ e) \<and>
         fst (get_translation env' key (snd (get_translation env key s)))
           = Return (''Error: '' @ e) \<and>
         requests (snd (get_translation env' key (snd (get_translation env key s))))
           = requests (snd (get_translation env key s))"
proof -
  obtain s1 where t: "get_translation_try env key s = (Raise e, s1)"
    using assms(2) by (cases "get_translation_try env key s") auto
  with assms(1) have r: "fst (get_translation env key s) = Return (''Error: '' @ e)"
    by (simp add: get_translation_def get_translation_body_def)
  then have c: "cache_get key (translation_cache (snd (get_translation env key s)))
           = Some (''Error: '' @ e)"
    by (rule get_translation_stores)
  from r c get_translation_hit_requests [OF c, of env'] show ?thesis by simp
qed

text \<open>The three ways in which building the mapping fails.\<close>

lemma get_translation_try_failures:
  "fst (get_server env s) = Raise e \<Longrightarrow>
     fst (get_translation_try env (m, d, fa, ta, target) s) = Raise e"
  "get_server env s = (Return srv, s1) \<Longrightarrow>
   answer env (length (requests s1)) (Query m d [fa, ta] None) = Inl e \<Longrightarrow>
     fst (get_translation_try env (m, d, fa, ta, target) s) = Raise e"
  "get_server env s = (Return srv, s1) \<Longrightarrow>
   answer env (length (requests s1)) (Query m d [fa, ta] None) = Inr df \<Longrightarrow>
   length (columns df) < 2 \<Longrightarrow>
     fst (get_translation_try env (m, d, fa, ta, target) s)
       = Raise ''single positional indexer is out-of-bounds''"
  by (cases "get_server env s";
      simp add: get_translation_try_def fetch_def Let_def iloc_column_def split: result.split)+

theorem translation_failure_is_cached_witness:
  "fst (get_translation failing_world tp53_key initial_state) = Return ''Error: timeout'' \<and>
   fst (get_translation steady_world tp53_key
          (snd (get_translation failing_world tp53_key initial_state))) = Return ''Error: timeout''"
proof -
  have miss: "cache_get tp53_key (translation_cache initial_state) = None"
    by (simp add: cache_get_def initial_state_def)
  have fails: "fst (get_translation_try failing_world tp53_key initial_state) = Raise ''timeout''"
    by (simp add: translation_defs eval_defs failing_world_def tp53_key_def)
  from translation_failure_is_cached [OF miss fails, of steady_world] show ?thesis by simp
qed

text \<open>
  Claim C3 as stated fails: after a failed call the service has recovered, and the second
  call still returns the error of the first without sending a request.
\<close>

theorem cached_error_counterexample:
  "fst (get_translation recovering_world tp53_key initial_state) = Return ''Error: timeout'' \<and>
   answer recovering_world
     (length (requests (snd (get_translation recovering_world tp53_key initial_state))))
     tp53_query = Inr sample_frame \<and>
   fst (get_translation recovering_world tp53_key
          (snd (get_translation recovering_world tp53_key initial_state)))
     = Return ''Error: timeout'' \<and>
   requests (snd (get_translation recovering_world tp53_key
                    (snd (get_translation recovering_world tp53_key initial_state))))
     = requests (snd (get_translation recovering_world tp53_key initial_state))"
  by (simp add: translation_defs eval_defs recovering_world_def tp53_key_def tp53_query_def)

section \<open>The bound of the translation cache\<close>

lemma raw_listing_state:
  "\<exists>extra. snd (list_common_attributes env m d s) = s\<lparr>requests := requests s @ extra\<rparr>"
  "\<exists>extra. snd (list_all_attributes env m d s) = s\<lparr>requests := requests s @ extra\<rparr>"
  "\<exists>extra. snd (list_filters env m d s) = s\<lparr>requests := requests s @ extra\<rparr>"
  by (auto simp: list_common_attributes_def list_all_attributes_def list_filters_def
        new_server_def fetch_def Let_def
        split: option.split sum.split result.split)

lemma list_marts_cache:
  "translation_cache (snd (list_marts env s)) = translation_cache s"
proof -
  obtain r s1 where gs: "get_server env s = (r, s1)" by (cases "get_server env s")
  with get_server_frame [of env s] have "translation_cache s1 = translation_cache s" by simp
  with gs show ?thesis
    by (cases r)
      (auto simp: list_marts_def list_marts_try_def fetch_def Let_def print_stderr_def
        split: sum.split)
qed

lemma list_datasets_cache:
  "translation_cache (snd (list_datasets env m s)) = translation_cache s"
proof -
  obtain r s1 where gs: "get_server env s = (r, s1)" by (cases "get_server env s")
  with get_server_frame [of env s] have "translation_cache s1 = translation_cache s" by simp
  with gs show ?thesis
    by (cases r)
      (auto simp: list_datasets_def list_datasets_try_def fetch_def Let_def print_stderr_def
        split: sum.split)
qed

lemma get_data_loop_cache:
  "translation_cache (snd (get_data_loop env m d a f todo s)) = translation_cache s"
proof (induction todo arbitrary: s)
  case Nil
  then show ?case by simp
next
  case (Cons i todo)
  obtain r s1 where t: "get_data_try env m d a f s = (r, s1)"
    by (cases "get_data_try env m d a f s")
  with get_data_try_frame [of env m d a f s]
  have fr: "translation_cache s1 = translation_cache s" by simp
  show ?case
  proof (cases r)
    case (Return out)
    with t fr show ?thesis by simp
  next
    case (Raise e)
    with t fr Cons.IH [of "wait_retry (log_failure i e s1)"] show ?thesis
      by (simp add: Let_def)
  qed
qed

lemma perform_other_cache:
  assumes "\<forall>key. c \<noteq> CallGetTranslation key"
  shows "translation_cache (snd (perform env c s)) = translation_cache s"
proof (cases c)
  case (CallListCommonAttributes m d)
  with raw_listing_state(1) [of env m d s] show ?thesis by auto
next
  case (CallListAllAttributes m d)
  with raw_listing_state(2) [of env m d s] show ?thesis by auto
next
  case (CallListFilters m d)
  with raw_listing_state(3) [of env m d s] show ?thesis by auto
next
  case (CallGetTranslation key)
  with assms show ?thesis by simp
qed (simp_all add: list_marts_cache list_datasets_cache get_data_def get_data_loop_cache)

lemma still_cached_get:
  assumes "still_cached key v S c"
  shows "cache_get key c = Some v"
proof -
  from assms obtain pre post where
    c: "c = pre @ (key, v) # post" and nk: "key \<notin> fst ` set pre"
    unfolding still_cached_def by blast
  from nk have "map_of pre key = None" by (simp add: map_of_eq_None_iff)
  with c show ?thesis by (simp add: cache_get_def map_add_def)
qed

lemma still_cached_mono:
  assumes "still_cached key v S c" and "S \<subseteq> T"
  shows "still_cached key v T c"
proof -
  from assms(1) obtain pre post where
    1: "c = pre @ (key, v) # post" "key \<notin> fst ` set pre" "distinct (map fst pre)"
    and sub: "fst ` set pre \<subseteq> S"
    unfolding still_cached_def by blast
  from sub assms(2) have "fst ` set pre \<subseteq> T" by (rule subset_trans)
  with 1 show ?thesis
    unfolding still_cached_def by (intro exI [of _ pre] exI [of _ post] conjI)
qed

lemma still_cached_front: "still_cached key v S ((key, v) # c)"
  unfolding still_cached_def by (rule exI [of _ "[]"]) simp

lemma still_cached_touch_same: "still_cached key v S (cache_touch key v c)"
  by (simp add: cache_touch_def still_cached_front)

lemma still_cached_put_same: "still_cached key v S (cache_put n key v c)"
  by (simp add: cache_put_def still_cached_front)

lemma still_cached_touch_other:
  assumes "still_cached key v S c" and "k \<noteq> key"
  shows "still_cached key v (insert k S) (cache_touch k w c)"
proof -
  from assms(1) obtain pre post where
    c: "c = pre @ (key, v) # post" and nk: "key \<notin> fst ` set pre"
    and d: "distinct (map fst pre)" and sub: "fst ` set pre \<subseteq> S"
    unfolding still_cached_def by blast
  let ?pre = "(k, w) # filter (\<lambda>e. fst e \<noteq> k) pre"
  let ?post = "filter (\<lambda>e. fst e \<noteq> k) post"
  have 1: "cache_touch k w c = ?pre @ (key, v) # ?post"
    using c assms(2) by (simp add: cache_touch_def)
  have 2: "key \<notin> fst ` set ?pre" using nk assms(2) by auto
  have "distinct (map fst (filter (\<lambda>e. fst e \<noteq> k) pre))"
    using d by (rule distinct_map_filter)
  then have 3: "distinct (map fst ?pre)" by auto
  have 4: "fst ` set ?pre \<subseteq> insert k S" using sub by auto
  show ?thesis
    unfolding still_cached_def
    apply (rule exI [of _ ?pre])
    apply (rule exI [of _ ?post])
    using 1 2 3 4 apply blast
    done
qed

lemma still_cached_put_other:
  assumes "still_cached key v S c" and "k \<noteq> key" and "cache_get k c = None"
    and "finite S" and "card (insert k S) < n"
  shows "still_cached key v (insert k S) (cache_put n k w c)"
proof -
  from assms(1) obtain pre post where
    c: "c = pre @ (key, v) # post" and nk: "key \<notin> fst ` set pre"
    and d: "distinct (map fst pre)" and sub: "fst ` set pre \<subseteq> S"
    unfolding still_cached_def by blast
  from assms(3) c have kpre: "k \<notin> fst ` set pre"
    by (auto simp: cache_get_def map_of_eq_None_iff)
  have "length pre = card (fst ` set pre)"
  proof -
    have "card (fst ` set pre) = card (set (map fst pre))" by simp
    also have "\<dots> = length (map fst pre)" using d by (rule distinct_card)
    finally show ?thesis by simp
  qed
  also have "\<dots> < card (insert k (fst ` set pre))"
    using kpre by simp
  also have "\<dots> \<le> card (insert k S)"
    using sub assms(4) by (intro card_mono) auto
  finally have len: "Suc (length pre) < n" using assms(5) by simp
  let ?pre = "(k, w) # pre"
  have "\<exists>post'. cache_put n k w c = ?pre @ (key, v) # post'"
  proof (cases "n \<le> length c")
    case True
    with len c have "post \<noteq> []" by (cases post) simp_all
    then have "butlast c = pre @ (key, v) # butlast post"
      using c by (simp add: butlast_append)
    with True show ?thesis by (simp add: cache_put_def)
  next
    case False
    with c show ?thesis by (simp add: cache_put_def)
  qed
  then obtain post' where 1: "cache_put n k w c = ?pre @ (key, v) # post'" by blast
  have 2: "key \<notin> fst ` set ?pre" using nk assms(2) by auto
  have 3: "distinct (map fst ?pre)" using d kpre by auto
  have 4: "fst ` set ?pre \<subseteq> insert k S" using sub by auto
  show ?thesis
    unfolding still_cached_def
    apply (rule exI [of _ ?pre])
    apply (rule exI [of _ post'])
    using 1 2 3 4 apply blast
    done
qed

lemma translation_step_same:
  assumes "still_cached key v S (translation_cache s)"
  shows "still_cached key v S (translation_cache (snd (get_translation env key s)))"
  using still_cached_get [OF assms]
  by (simp add: get_translation_hit still_cached_touch_same)

lemma translation_step_other:
  assumes "still_cached key v S (translation_cache s)" and "k \<noteq> key"
    and "finite S" and "card (insert k S) < 1000"
  shows "still_cached key v (insert k S) (translation_cache (snd (get_translation env k s)))"
proof (cases "cache_get k (translation_cache s)")
  case None
  from get_translation_miss [OF None, of env] obtain w s1 where
    "get_translation env k s =
       (Return w, s1\<lparr>translation_cache := cache_put 1000 k w (translation_cache s)\<rparr>)"
    by blast
  with still_cached_put_other [OF assms(1,2) None assms(3,4)] show ?thesis by simp
next
  case (Some w)
  with still_cached_touch_other [OF assms(1,2)] show ?thesis
    by (simp add: get_translation_hit)
qed

lemma translation_keys_other:
  "\<forall>key. c \<noteq> CallGetTranslation key \<Longrightarrow> translation_keys (c # cs) = translation_keys cs"
  by (cases c) simp_all

lemma run_still_cached:
  assumes "still_cached key v S (translation_cache s)" and "finite S"
    and "card (S \<union> (set (translation_keys cs) - {key})) < 1000"
  shows "still_cached key v (S \<union> (set (translation_keys cs) - {key}))
           (translation_cache (run env cs s))"
  using assms
proof (induction cs arbitrary: s S)
  case Nil
  then show ?case by simp
next
  case (Cons c cs)
  show ?case
  proof (cases "\<exists>k. c = CallGetTranslation k")
    case False
    then have other: "\<forall>key. c \<noteq> CallGetTranslation key" by blast
    from perform_other_cache [OF other, of env s] Cons.prems(1)
    have "still_cached key v S (translation_cache (snd (perform env c s)))" by simp
    from Cons.IH [OF this Cons.prems(2)] Cons.prems(3) show ?thesis
      by (simp add: translation_keys_other [OF other])
  next
    case True
    then obtain k where c: "c = CallGetTranslation k" by blast
    show ?thesis
    proof (cases "k = key")
      case True
      from translation_step_same [OF Cons.prems(1), of env]
      have "still_cached key v S (translation_cache (snd (perform env c s)))"
        using c True by simp
      from Cons.IH [OF this Cons.prems(2)] Cons.prems(3) c True show ?thesis
        by simp
    next
      case False
      have eq: "S \<union> (set (translation_keys (c # cs)) - {key})
                = insert k S \<union> (set (translation_keys cs) - {key})"
        using c False by auto
      have fin: "finite (insert k S \<union> (set (translation_keys cs) - {key}))"
        using Cons.prems(2) by simp
      have "card (insert k S) \<le> card (insert k S \<union> (set (translation_keys cs) - {key}))"
        using fin by (intro card_mono) auto
      with Cons.prems(3) eq have small: "card (insert k S) < 1000" by simp
      from translation_step_other [OF Cons.prems(1) False Cons.prems(2) small, of env]
      have st: "still_cached key v (insert k S) (translation_cache (snd (perform env c s)))"
        using c by simp
      have "finite (insert k S)" using Cons.prems(2) by simp
      from Cons.IH [OF st this] Cons.prems(3) eq show ?thesis
        using c by simp
    qed
  qed
qed

text \<open>
  Claim C10 (amended). Once a call of \<open>get_translation\<close> has returned a string, be it
  a value or an error string, a later call with the same five arguments returns the same
  string and sends no request and writes no log line, provided that the calls in between
  have passed fewer than 1000 distinct other argument tuples to \<open>get_translation\<close>;
  calls of the other tools in between do not matter.
\<close>

theorem cached_translation_replays:
  assumes "fst (get_translation env key s) = Return v"
    and "card (set (translation_keys cs) - {key}) < 1000"
  shows "fst (get_translation env key (run env cs (snd (get_translation env key s))))
           = Return v \<and>
         requests (snd (get_translation env key (run env cs (snd (get_translation env key s)))))
           = requests (run env cs (snd (get_translation env key s))) \<and>
         stderr (snd (get_translation env key (run env cs (snd (get_translation env key s)))))
           = stderr (run env cs (snd (get_translation env key s)))"
proof -
  let ?s1 = "snd (get_translation env key s)"
  have "still_cached key v {} (translation_cache ?s1)"
  proof (cases "cache_get key (translation_cache s)")
    case None
    from get_translation_miss [OF None, of env] assms(1) show ?thesis
      by (auto simp: still_cached_put_same)
  next
    case (Some w)
    with assms(1) show ?thesis
      by (simp add: get_translation_hit still_cached_touch_same)
  qed
  from run_still_cached [OF this, of cs env] assms(2)
  have "still_cached key v ({} \<union> (set (translation_keys cs) - {key}))
          (translation_cache (run env cs ?s1))" by simp
  then have "cache_get key (translation_cache (run env cs ?s1)) = Some v"
    by (rule still_cached_get)
  then show ?thesis by (simp add: get_translation_hit)
qed

theorem cached_translation_replays_witness:
  "fst (get_translation steady_world tp53_key
          (run steady_world [CallGetTranslation brca1_key, CallListMarts]
             (snd (get_translation steady_world tp53_key initial_state))))
     = Return ''ENSG00000141510''"
proof -
  have first: "fst (get_translation steady_world tp53_key initial_state) = Return ''ENSG00000141510''"
    by (simp add: translation_defs eval_defs steady_world_def tp53_key_def duplicate_frame_def)
  have "set (translation_keys [CallGetTranslation brca1_key, CallListMarts]) - {tp53_key}
          = {brca1_key}"
    by (simp add: tp53_key_def brca1_key_def)
  then have few: "card (set (translation_keys [CallGetTranslation brca1_key, CallListMarts])
                    - {tp53_key}) < 1000"
    by simp
  from cached_translation_replays [OF first few] show ?thesis by simp
qed

lemma get_translation_miss_keys:
  assumes "cache_get k (translation_cache s) = None"
  shows "map fst (translation_cache (snd (get_translation env k s))) =
           k # (if 1000 \<le> length (translation_cache s)
                then butlast (map fst (translation_cache s))
                else map fst (translation_cache s))"
proof -
  from get_translation_miss [OF assms, of env] obtain w s1 where
    "get_translation env k s =
       (Return w, s1\<lparr>translation_cache := cache_put 1000 k w (translation_cache s)\<rparr>)"
    by blast
  then show ?thesis by (simp add: cache_put_def map_butlast)
qed

lemma get_translation_keeps_server:
  assumes "cache_get () (server_cache s) = Some srv"
  shows "cache_get () (server_cache (snd (get_translation env k s))) = Some srv \<and>
         length (requests s) \<le> length (requests (snd (get_translation env k s)))"
proof (cases "cache_get k (translation_cache s)")
  case (Some w)
  with assms show ?thesis by (simp add: get_translation_hit)
next
  case None
  obtain m d fa ta target where k: "k = (m, d, fa, ta, target)" by (cases k)
  from assms None show ?thesis
    unfolding k
    by (simp add: get_translation_def get_translation_body_def get_translation_try_def
          get_server_hit fetch_def Let_def print_stderr_def
          split: sum.split result.split option.split)
qed

lemma filler_inj [simp]: "(filler i = filler j) = (i = j)"
  by (simp add: filler_def replicate_eq_replicate)

lemma filler_not_tp53 [simp]: "filler i \<noteq> tp53_key" "tp53_key \<noteq> filler i"
  by (simp_all add: filler_def tp53_key_def)

lemma fillers_Suc: "fillers (Suc n) = fillers n @ [CallGetTranslation (filler n)]"
  by (simp add: fillers_def)

lemma take_keys:
  "n < 999 \<Longrightarrow> take 1000 (rev (map filler [0..<n]) @ [tp53_key]) = rev (map filler [0..<n]) @ [tp53_key]"
  by simp

lemma length_keys: "length (rev (map filler [0..<n]) @ [tp53_key]) = Suc n"
  by simp

lemma keys_Suc:
  "rev (map filler [0..<Suc n]) @ [tp53_key] = filler n # (rev (map filler [0..<n]) @ [tp53_key])"
  by simp

lemma take_1000_Cons: "take 1000 (x # xs) = x # take 999 xs"
  by (simp add: take_Cons')

lemma run_fillers:
  assumes "map fst (translation_cache s) = [tp53_key]"
    and "cache_get () (server_cache s) = Some srv"
  shows "map fst (translation_cache (run env (fillers n) s)) =
           take 1000 (rev (map filler [0..<n]) @ [tp53_key]) \<and>
         cache_get () (server_cache (run env (fillers n) s)) = Some srv \<and>
         length (requests s) \<le> length (requests (run env (fillers n) s))"
proof (induction n)
  case 0
  with assms show ?case by (simp add: fillers_def)
next
  case (Suc n)
  let ?s = "run env (fillers n) s"
  define keys where "keys = rev (map filler [0..<n]) @ [tp53_key]"
  from Suc have keys: "map fst (translation_cache ?s) = take 1000 keys"
    and srv: "cache_get () (server_cache ?s) = Some srv"
    and len: "length (requests s) \<le> length (requests ?s)"
    unfolding keys_def by blast+
  have lk: "length keys = Suc n" unfolding keys_def by (rule length_keys)
  have "filler n \<notin> set keys" unfolding keys_def by auto
  then have "filler n \<notin> set (take 1000 keys)"
    by (meson in_set_takeD)
  then have "filler n \<notin> set (map fst (translation_cache ?s))"
    using keys by simp
  then have "filler n \<notin> fst ` set (translation_cache ?s)"
    by simp
  then have miss: "cache_get (filler n) (translation_cache ?s) = None"
    by (simp add: cache_get_def map_of_eq_None_iff)
  have "length (translation_cache ?s) = length (map fst (translation_cache ?s))" by simp
  also have "\<dots> = min 1000 (Suc n)" unfolding keys using lk by simp
  finally have l: "length (translation_cache ?s) = min 1000 (Suc n)" .
  have step: "map fst (translation_cache (snd (get_translation env (filler n) ?s))) =
          filler n # take 999 keys"
  proof (cases "1000 \<le> length (translation_cache ?s)")
    case True
    with l have n: "999 \<le> n" by simp
    with lk have "butlast (take 1000 keys) = take 999 keys"
      by (simp add: butlast_take)
    with True keys get_translation_miss_keys [OF miss, of env] show ?thesis
      by simp
  next
    case False
    with l have n: "n < 999" by simp
    with lk have "take 1000 keys = keys" "take 999 keys = keys" by simp_all
    with False keys get_translation_miss_keys [OF miss, of env] show ?thesis
      by simp
  qed
  have "take 1000 (rev (map filler [0..<Suc n]) @ [tp53_key]) = filler n # take 999 keys"
    unfolding keys_Suc keys_def by (rule take_1000_Cons)
  with step have 1: "map fst (translation_cache (run env (fillers (Suc n)) s)) =
           take 1000 (rev (map filler [0..<Suc n]) @ [tp53_key])"
    by (simp add: fillers_Suc run_append)
  from get_translation_keeps_server [OF srv, of env "filler n"] len
  have 2: "cache_get () (server_cache (run env (fillers (Suc n)) s)) = Some srv"
    and 3: "length (requests s) \<le> length (requests (run env (fillers (Suc n)) s))"
    by (simp_all add: fillers_Suc run_append)
  from 1 2 3 show ?case by blast
qed

lemma get_translation_rebuild:
  assumes "key = (m, d, fa, ta, target)"
    and "cache_get key (translation_cache s) = None"
    and "cache_get () (server_cache s) = Some srv"
    and "answer env (length (requests s)) (Query m d [fa, ta] None) = Inr df"
    and "iloc_column df 0 = Return froms"
    and "iloc_column df 1 = Return tos"
    and "dict (zip froms tos) target = Some v"
  shows "fst (get_translation env key s) = Return v \<and>
         requests (snd (get_translation env key s)) = requests s @ [Query m d [fa, ta] None]"
  using assms
  by (simp add: get_translation_def get_translation_body_def get_translation_try_def
        get_server_hit fetch_def Let_def)

text \<open>
  Claim C10 as stated fails: after 1000 calls with other targets the entry has been
  dropped, and the same five arguments send a new query and return another string.
\<close>

theorem eviction_counterexample:
  "fst (get_translation changing_world tp53_key initial_state) = Return ''ENSG00000000001'' \<and>
   fst (get_translation changing_world tp53_key
          (run changing_world (fillers 1000)
             (snd (get_translation changing_world tp53_key initial_state))))
     = Return ''ENSG00000141510'' \<and>
   requests (snd (get_translation changing_world tp53_key
          (run changing_world (fillers 1000)
             (snd (get_translation changing_world tp53_key initial_state)))))
     = requests (run changing_world (fillers 1000)
             (snd (get_translation changing_world tp53_key initial_state))) @ [tp53_query]"
proof -
  let ?s1 = "snd (get_translation changing_world tp53_key initial_state)"
  let ?s2 = "run changing_world (fillers 1000) ?s1"
  have first: "fst (get_translation changing_world tp53_key initial_state)
                 = Return ''ENSG00000000001''"
    and c1: "map fst (translation_cache ?s1) = [tp53_key]"
    and v1: "cache_get () (server_cache ?s1) = Some 0"
    and r1: "length (requests ?s1) = 2"
    by (simp_all add: translation_defs eval_defs changing_world_def tp53_key_def stale_frame_def)
  from run_fillers [OF c1 v1, of changing_world 1000] r1
  have c2: "map fst (translation_cache ?s2) = take 1000 (rev (map filler [0..<1000]) @ [tp53_key])"
    and v2: "cache_get () (server_cache ?s2) = Some 0"
    and r2: "2 \<le> length (requests ?s2)"
    by simp_all
  have "take 1000 (rev (map filler [0..<1000]) @ [tp53_key]) = rev (map filler [0..<1000])"
    by simp
  with c2 have "tp53_key \<notin> set (map fst (translation_cache ?s2))"
    by auto
  then have "tp53_key \<notin> fst ` set (translation_cache ?s2)" by simp
  then have miss: "cache_get tp53_key (translation_cache ?s2) = None"
    by (simp add: cache_get_def map_of_eq_None_iff)
  from r2 have ans: "answer changing_world (length (requests ?s2))
                       (Query ''ENSEMBL_MART_ENSEMBL'' ''hsapiens_gene_ensembl''
                          [''hgnc_symbol'', ''ensembl_gene_id''] None) = Inr sample_frame"
    by (simp add: changing_world_def)
  have cols: "iloc_column sample_frame 0 = Return [''TP53'']"
    "iloc_column sample_frame 1 = Return [''ENSG00000141510'']"
    by (simp_all add: iloc_column_def sample_frame_def)
  have d: "dict (zip [''TP53''] [''ENSG00000141510'']) ''TP53'' = Some ''ENSG00000141510''"
    by (simp add: dict_def)
  from get_translation_rebuild [OF tp53_key_def miss v2 ans cols d] first
  show ?thesis by (simp add: tp53_query_def)
qed

section \<open>Raised faults and inline errors\<close>

lemma get_data_returns:
  "\<exists>v. fst (get_data env m d a f s) = Return (Some v)"
proof -
  let ?pass = "get_data_try env m d a f"
  obtain r0 s1 where t0: "?pass s = (r0, s1)" by (cases "?pass s")
  show ?thesis
  proof (cases r0)
    case (Return out)
    with t0 get_data_first [of env m d a f s out s1] show ?thesis by simp
  next
    case (Raise e0)
    note e0 = this
    obtain r1 s2 where t1: "?pass (wait_retry (log_failure 0 e0 s1)) = (r1, s2)"
      by (cases "?pass (wait_retry (log_failure 0 e0 s1))")
    show ?thesis
    proof (cases r1)
      case (Return out)
      with t0 t1 e0 get_data_second [of env m d a f s e0 s1 out s2] show ?thesis by simp
    next
      case (Raise e1)
      note e1 = this
      obtain r2 s3 where t2: "?pass (wait_retry (log_failure 1 e1 s2)) = (r2, s3)"
        by (cases "?pass (wait_retry (log_failure 1 e1 s2))")
      show ?thesis
      proof (cases r2)
        case (Return out)
        with t0 t1 t2 e0 e1 get_data_third [of env m d a f s e0 s1 e1 s2 out s3]
        show ?thesis by simp
      next
        case (Raise e2)
        with t0 t1 t2 e0 e1 get_data_exhausted [of env m d a f s e0 s1 e1 s2 e2 s3]
        show ?thesis by simp
      qed
    qed
  qed
qed

lemma list_marts_converts:
  "fst (list_marts env s) =
     (case fst (list_marts_try env s) of
        Raise e \<Rightarrow> Return (''Error: '' @ e) | Return v \<Rightarrow> Return v)"
  by (cases "list_marts_try env s") (simp add: list_marts_def split: result.split)

lemma list_datasets_converts:
  "fst (list_datasets env m s) =
     (case fst (list_datasets_try env m s) of
        Raise e \<Rightarrow> Return (''Error: '' @ e) | Return v \<Rightarrow> Return v)"
  by (cases "list_datasets_try env m s") (simp add: list_datasets_def split: result.split)

lemma listing_try_connection_failure:
  assumes "fst (get_server env s) = Raise e"
  shows "fst (list_marts_try env s) = Raise e" and "fst (list_datasets_try env m s) = Raise e"
  using assms
  by (cases "get_server env s"; simp add: list_marts_try_def list_datasets_try_def)+

lemma raw_listing_connection_failure:
  assumes "connect_outcome env (length (requests s)) DEFAULT_HOST = Some msg"
  shows "fst (list_common_attributes env m d s) = Raise msg"
    and "fst (list_all_attributes env m d s) = Raise msg"
    and "fst (list_filters env m d s) = Raise msg"
  using assms
  by (simp_all add: list_common_attributes_def list_all_attributes_def list_filters_def
        new_server_def Let_def)

text \<open>
  Claim C2 (amended). \<open>list_marts\<close>, \<open>list_datasets\<close>, \<open>get_data\<close> and
  \<open>get_translation\<close> never raise: they return a string, and a failure inside them,
  a failure of the very first connection included, comes back as \<open>Error:\<close> followed
  by its message. A connection that fails in \<open>list_common_attributes\<close>,
  \<open>list_all_attributes\<close> or \<open>list_filters\<close> is raised to the caller.
\<close>

theorem wrapped_operations_never_raise:
  "(\<exists>v. fst (list_marts env s) = Return v) \<and>
   (\<exists>v. fst (list_datasets env m s) = Return v) \<and>
   (\<exists>v. fst (get_data env m d a f s) = Return (Some v)) \<and>
   (\<exists>v. fst (get_translation env key s) = Return v) \<and>
   (\<forall>e. fst (list_marts_try env s) = Raise e \<longrightarrow>
          fst (list_marts env s) = Return (''Error: '' @ e)) \<and>
   (\<forall>e. fst (list_datasets_try env m s) = Raise e \<longrightarrow>
          fst (list_datasets env m s) = Return (''Error: '' @ e)) \<and>
   (\<forall>e. cache_get key (translation_cache s) = None \<and>
          fst (get_translation_try env key s) = Raise e \<longrightarrow>
          fst (get_translation env key s) = Return (''Error: '' @ e)) \<and>
   (\<forall>e. (\<forall>i<MAX_RETRIES.
             fst (get_data_try env m d a f (attempt_state env m d a f i s)) = Raise (e i)) \<longrightarrow>
          fst (get_data env m d a f s) = Return (Some (''Error: '' @ e 2))) \<and>
   (\<forall>e. fst (get_server env s) = Raise e \<longrightarrow>
          fst (list_marts env s) = Return (''Error: '' @ e) \<and>
          fst (list_datasets env m s) = Return (''Error: '' @ e)) \<and>
   (\<forall>msg. connect_outcome env (length (requests s)) DEFAULT_HOST = Some msg \<longrightarrow>
          fst (list_common_attributes env m d s) = Raise msg \<and>
          fst (list_all_attributes env m d s) = Raise msg \<and>
          fst (list_filters env m d s) = Raise msg)"
proof -
  have 1: "\<exists>v. fst (list_marts env s) = Return v"
    by (simp add: list_marts_converts split: result.split)
  have 2: "\<exists>v. fst (list_datasets env m s) = Return v"
    by (simp add: list_datasets_converts split: result.split)
  have 3: "\<exists>v. fst (get_data env m d a f s) = Return (Some v)"
    by (rule get_data_returns)
  have 4: "\<exists>v. fst (get_translation env key s) = Return v"
    by (rule get_translation_returns)
  have 5: "\<forall>e. fst (list_marts_try env s) = Raise e \<longrightarrow>
          fst (list_marts env s) = Return (''Error: '' @ e)"
    by (simp add: list_marts_converts)
  have 6: "\<forall>e. fst (list_datasets_try env m s) = Raise e \<longrightarrow>
          fst (list_datasets env m s) = Return (''Error: '' @ e)"
    by (simp add: list_datasets_converts)
  have 7: "\<forall>e. cache_get key (translation_cache s) = None \<and>
          fst (get_translation_try env key s) = Raise e \<longrightarrow>
          fst (get_translation env key s) = Return (''Error: '' @ e)"
  proof (intro allI impI)
    fix e
    assume a: "cache_get key (translation_cache s) = None \<and>
               fst (get_translation_try env key s) = Raise e"
    then obtain s1 where "get_translation_try env key s = (Raise e, s1)"
      by (cases "get_translation_try env key s") auto
    with a show "fst (get_translation env key s) = Return (''Error: '' @ e)"
      by (simp add: get_translation_def get_translation_body_def)
  qed
  have 8: "\<forall>e. fst (get_server env s) = Raise e \<longrightarrow>
          fst (list_marts env s) = Return (''Error: '' @ e) \<and>
          fst (list_datasets env m s) = Return (''Error: '' @ e)"
    by (simp add: list_marts_converts list_datasets_converts listing_try_connection_failure)
  have 9: "\<forall>msg. connect_outcome env (length (requests s)) DEFAULT_HOST = Some msg \<longrightarrow>
          fst (list_common_attributes env m d s) = Raise msg \<and>
          fst (list_all_attributes env m d s) = Raise msg \<and>
          fst (list_filters env m d s) = Raise msg"
    by (simp add: raw_listing_connection_failure)
  have 10: "\<forall>e. (\<forall>i<MAX_RETRIES.
             fst (get_data_try env m d a f (attempt_state env m d a f i s)) = Raise (e i)) \<longrightarrow>
          fst (get_data env m d a f s) = Return (Some (''Error: '' @ e 2))"
  proof (intro allI impI)
    fix e
    assume "\<forall>i<MAX_RETRIES.
              fst (get_data_try env m d a f (attempt_state env m d a f i s)) = Raise (e i)"
    then show "fst (get_data env m d a f s) = Return (Some (''Error: '' @ e 2))"
      by (rule get_data_all_fail)
  qed
  from 1 2 3 4 5 6 7 8 9 10 show ?thesis by blast
qed

theorem wrapped_operations_never_raise_witness:
  "fst (list_marts unreachable_world initial_state) = Return ''Error: unreachable'' \<and>
   fst (list_datasets unreachable_world ''ENSEMBL_MART_ENSEMBL'' initial_state)
     = Return ''Error: unreachable'' \<and>
   fst (get_translation failing_world tp53_key initial_state) = Return ''Error: timeout'' \<and>
   fst (get_data failing_world ''ENSEMBL_MART_ENSEMBL'' ''hsapiens_gene_ensembl'' [] []
          initial_state) = Return (Some ''Error: timeout'') \<and>
   fst (list_common_attributes unreachable_world ''ENSEMBL_MART_ENSEMBL''
          ''hsapiens_gene_ensembl'' initial_state) = Raise ''unreachable''"
proof -
  have g: "\<forall>i<MAX_RETRIES.
             fst (get_data_try failing_world ''ENSEMBL_MART_ENSEMBL'' ''hsapiens_gene_ensembl'' [] []
                    (attempt_state failing_world ''ENSEMBL_MART_ENSEMBL''
                       ''hsapiens_gene_ensembl'' [] [] i initial_state))
               = Raise ((\<lambda>i. ''timeout'') i)"
    by (auto simp: get_data_try_def get_server_def get_server_body_def new_server_def fetch_def
          Let_def failing_world_def split: prod.split result.split option.split)
  have a: "fst (get_server unreachable_world initial_state) = Raise ''unreachable''"
    by (simp add: eval_defs unreachable_world_def)
  have b: "fst (list_marts_try unreachable_world initial_state) = Raise ''unreachable''"
    "fst (list_datasets_try unreachable_world ''ENSEMBL_MART_ENSEMBL'' initial_state)
       = Raise ''unreachable''"
    by (simp_all add: list_marts_try_def list_datasets_try_def eval_defs unreachable_world_def)
  have c: "cache_get tp53_key (translation_cache initial_state) = None"
    "fst (get_translation_try failing_world tp53_key initial_state) = Raise ''timeout''"
    by (simp_all add: translation_defs eval_defs failing_world_def tp53_key_def)
  have d: "connect_outcome unreachable_world (length (requests initial_state)) DEFAULT_HOST
             = Some ''unreachable''"
    by (simp add: unreachable_world_def)
  note down = wrapped_operations_never_raise
         [of unreachable_world initial_state "''ENSEMBL_MART_ENSEMBL''"
             "''hsapiens_gene_ensembl''" "[]" "[]" tp53_key]
  note fail = wrapped_operations_never_raise
         [of failing_world initial_state "''ENSEMBL_MART_ENSEMBL''"
             "''hsapiens_gene_ensembl''" "[]" "[]" tp53_key]
  from fail have "\<forall>e. (\<forall>i<MAX_RETRIES.
             fst (get_data_try failing_world ''ENSEMBL_MART_ENSEMBL'' ''hsapiens_gene_ensembl'' [] []
                    (attempt_state failing_world ''ENSEMBL_MART_ENSEMBL''
                       ''hsapiens_gene_ensembl'' [] [] i initial_state)) = Raise (e i)) \<longrightarrow>
          fst (get_data failing_world ''ENSEMBL_MART_ENSEMBL'' ''hsapiens_gene_ensembl'' [] []
                 initial_state) = Return (Some (''Error: '' @ e 2))"
    by blast
  from this [rule_format, of "\<lambda>i. ''timeout''"] g
  have gd: "fst (get_data failing_world ''ENSEMBL_MART_ENSEMBL'' ''hsapiens_gene_ensembl'' [] []
                   initial_state) = Return (Some ''Error: timeout'')"
    by simp
  from down a b d have 1:
    "fst (list_marts unreachable_world initial_state) = Return ''Error: unreachable''"
    "fst (list_datasets unreachable_world ''ENSEMBL_MART_ENSEMBL'' initial_state)
       = Return ''Error: unreachable''"
    "fst (list_common_attributes unreachable_world ''ENSEMBL_MART_ENSEMBL''
          ''hsapiens_gene_ensembl'' initial_state) = Raise ''unreachable''"
    by simp_all
  from fail c have 2:
    "fst (get_translation failing_world tp53_key initial_state) = Return ''Error: timeout''"
    by simp
  from 1 2 gd show ?thesis by simp
qed

text \<open>
  Claim C2 as stated fails twice: the first connection of a process fails in
  \<open>list_marts\<close> and \<open>list_datasets\<close> and nothing is raised, and a failure that
  is no connection failure is raised by \<open>list_filters\<close>.
\<close>

theorem propagation_counterexample:
  "cache_get () (server_cache initial_state) = None \<and>
   fst (get_server unreachable_world initial_state) = Raise ''unreachable'' \<and>
   fst (list_marts unreachable_world initial_state) = Return ''Error: unreachable'' \<and>
   fst (list_datasets unreachable_world ''ENSEMBL_MART_ENSEMBL'' initial_state)
     = Return ''Error: unreachable'' \<and>
   connect_outcome failing_world 0 DEFAULT_HOST = None \<and>
   fst (list_filters failing_world ''ENSEMBL_MART_ENSEMBL'' ''hsapiens_gene_ensembl''
          initial_state) = Raise ''timeout''"
  by (simp add: list_marts_def list_marts_try_def list_datasets_def list_datasets_try_def
        list_filters_def eval_defs unreachable_world_def failing_world_def)

section \<open>The attribute listings\<close>

lemma starts_with_iff: "starts_with pat s \<longleftrightarrow> (\<exists>w. s = pat @ w)"
  by (induction pat s rule: starts_with.induct) auto

lemma has_substring_iff: "has_substring pat s \<longleftrightarrow> (\<exists>u w. s = u @ pat @ w)"
proof (induction s)
  case Nil
  then show ?case by auto
next
  case (Cons c cs)
  show ?case
  proof
    assume "has_substring pat (c # cs)"
    then consider "starts_with pat (c # cs)" | "has_substring pat cs" by auto
    then show "\<exists>u w. c # cs = u @ pat @ w"
    proof cases
      case 1
      then obtain w where "c # cs = pat @ w" by (auto simp: starts_with_iff)
      then have "c # cs = [] @ pat @ w" by simp
      then show ?thesis by blast
    next
      case 2
      with Cons.IH obtain u w where "cs = u @ pat @ w" by blast
      then have "c # cs = (c # u) @ pat @ w" by simp
      then show ?thesis by blast
    qed
  next
    assume "\<exists>u w. c # cs = u @ pat @ w"
    then obtain u w where eq: "c # cs = u @ pat @ w" by blast
    show "has_substring pat (c # cs)"
    proof (cases u)
      case Nil
      with eq have "starts_with pat (c # cs)" by (auto simp: starts_with_iff)
      then show ?thesis by simp
    next
      case (Cons x u')
      with eq have "cs = u' @ pat @ w" by simp
      with Cons.IH have "has_substring pat cs" by blast
      then show ?thesis by simp
    qed
  qed
qed

lemma excluded_name_iff:
  "excluded_name n \<longleftrightarrow> (\<exists>pat \<in> set excluded_patterns. \<exists>u w. n = u @ pat @ w)"
  by (simp add: excluded_name_def list_ex_iff has_substring_iff)

lemma select_rows_filter:
  "select_rows (map P (map g (rows df))) df = df\<lparr>rows := filter (\<lambda>r. P (g r)) (rows df)\<rparr>"
proof -
  have "map snd (filter fst (zip (map P (map g xs)) xs)) = filter (\<lambda>r. P (g r)) xs" for xs
    by (induction xs) simp_all
  then show ?thesis by (simp add: select_rows_def)
qed

lemma drop_matching_filter:
  assumes "index_of ''name'' (columns df) = Some j"
  shows "drop_matching pat df =
           Return (df\<lparr>rows := filter (\<lambda>r. \<not> has_substring pat (r ! j)) (rows df)\<rparr>)"
  using assms select_rows_filter [of "\<lambda>n. \<not> has_substring pat n" "\<lambda>r. r ! j" df]
  by (simp add: drop_matching_def get_column_def str_contains_def comp_def)

lemma common_not_excluded: "\<forall>n \<in> set COMMON_ATTRIBUTES. \<not> excluded_name n"
  by (simp add: COMMON_ATTRIBUTES_def excluded_name_def excluded_patterns_def)

lemma list_common_attributes_result:
  assumes "connect_outcome env (length (requests s)) DEFAULT_HOST = None"
    and "answer env (Suc (length (requests s))) (ListAttributes m d) = Inr df"
    and "index_of ''name'' (columns df) = Some j"
  shows "fst (list_common_attributes env m d s) =
           Return (remove_cr (to_csv (linesep env)
             (df\<lparr>rows := filter (\<lambda>r. r ! j \<in> set COMMON_ATTRIBUTES) (rows df)\<rparr>)))"
proof -
  have sel: "select_rows (isin (map (\<lambda>r. r ! j) (rows df)) COMMON_ATTRIBUTES) df =
          df\<lparr>rows := filter (\<lambda>r. r ! j \<in> set COMMON_ATTRIBUTES) (rows df)\<rparr>"
    unfolding isin_def by (rule select_rows_filter)
  have col: "get_column df ''name'' = Return (map (\<lambda>r. r ! j) (rows df))"
    using assms(3) by (simp add: get_column_def)
  have srv: "new_server env DEFAULT_HOST s =
               (Return (length (requests s)), s\<lparr>requests := requests s @ [Connect DEFAULT_HOST]\<rparr>)"
    using assms(1) by (simp add: new_server_def Let_def)
  have ft: "fetch env srv (ListAttributes m d) (s\<lparr>requests := requests s @ [Connect DEFAULT_HOST]\<rparr>)
              = (Return df, s\<lparr>requests := requests s @ [Connect DEFAULT_HOST, ListAttributes m d]\<rparr>)"
    for srv
    using assms(2) by (simp add: fetch_def Let_def)
  show ?thesis
    unfolding list_common_attributes_def srv by (simp add: ft col sel)
qed

lemma list_all_attributes_result:
  assumes "connect_outcome env (length (requests s)) DEFAULT_HOST = None"
    and "answer env (Suc (length (requests s))) (ListAttributes m d) = Inr df"
    and "index_of ''name'' (columns df) = Some j"
  shows "fst (list_all_attributes env m d s) =
           Return (remove_cr (to_csv (linesep env)
             (df\<lparr>rows := filter (\<lambda>r. \<not> excluded_name (r ! j)) (rows df)\<rparr>)))"
proof -
  have ex: "(\<not> excluded_name n) =
        (\<not> has_substring ''_homolog_'' n \<and> \<not> has_substring ''dbass'' n \<and>
         \<not> has_substring ''affy_'' n \<and> \<not> has_substring ''agilent_'' n)" for n
    by (auto simp: excluded_name_def excluded_patterns_def)
  have srv: "new_server env DEFAULT_HOST s =
               (Return (length (requests s)), s\<lparr>requests := requests s @ [Connect DEFAULT_HOST]\<rparr>)"
    using assms(1) by (simp add: new_server_def Let_def)
  have ft: "fetch env srv (ListAttributes m d) (s\<lparr>requests := requests s @ [Connect DEFAULT_HOST]\<rparr>)
              = (Return df, s\<lparr>requests := requests s @ [Connect DEFAULT_HOST, ListAttributes m d]\<rparr>)"
    for srv
    using assms(2) by (simp add: fetch_def Let_def)
  have dm: "drop_matching pat (df\<lparr>rows := rs\<rparr>) =
              Return (df\<lparr>rows := filter (\<lambda>r. \<not> has_substring pat (r ! j)) rs\<rparr>)" for pat rs
    using drop_matching_filter [of "df\<lparr>rows := rs\<rparr>" j pat] assms(3) by simp
  have dm0: "drop_matching pat df =
              Return (df\<lparr>rows := filter (\<lambda>r. \<not> has_substring pat (r ! j)) (rows df)\<rparr>)" for pat
    using assms(3) by (rule drop_matching_filter)
  show ?thesis
    unfolding list_all_attributes_def srv by (simp add: ft dm0 dm ex)
qed

text \<open>
  Claim C6. For a dataset whose attribute listing is obtained and has a \<open>name\<close>
  column, \<open>list_common_attributes\<close> returns the records whose name is one of the 18
  names of \<open>COMMON_ATTRIBUTES\<close>, \<open>list_all_attributes\<close> returns the records whose
  name holds none of the four patterns as a substring, and the records of the first are
  those records of the second whose name is in the list: a subset, none with a pattern in
  its name.
\<close>

theorem attribute_listings:
  assumes "connect_outcome env (length (requests s)) DEFAULT_HOST = None"
    and "answer env (Suc (length (requests s))) (ListAttributes m d) = Inr df"
    and "index_of ''name'' (columns df) = Some j"
  shows "fst (list_common_attributes env m d s) =
           Return (remove_cr (to_csv (linesep env)
             (df\<lparr>rows := filter (\<lambda>r. r ! j \<in> set COMMON_ATTRIBUTES) (rows df)\<rparr>))) \<and>
         fst (list_all_attributes env m d s) =
           Return (remove_cr (to_csv (linesep env)
             (df\<lparr>rows := filter (\<lambda>r. \<not> excluded_name (r ! j)) (rows df)\<rparr>))) \<and>
         length COMMON_ATTRIBUTES = 18 \<and>
         (\<forall>n. excluded_name n \<longleftrightarrow>
              (\<exists>pat \<in> set [''_homolog_'', ''dbass'', ''affy_'', ''agilent_''].
                 \<exists>u w. n = u @ pat @ w)) \<and>
         filter (\<lambda>r. r ! j \<in> set COMMON_ATTRIBUTES) (rows df) =
           filter (\<lambda>r. r ! j \<in> set COMMON_ATTRIBUTES)
             (filter (\<lambda>r. \<not> excluded_name (r ! j)) (rows df)) \<and>
         set (filter (\<lambda>r. r ! j \<in> set COMMON_ATTRIBUTES) (rows df))
           \<subseteq> set (filter (\<lambda>r. \<not> excluded_name (r ! j)) (rows df)) \<and>
         (\<forall>r \<in> set (filter (\<lambda>r. r ! j \<in> set COMMON_ATTRIBUTES) (rows df)).
            \<not> excluded_name (r ! j))"
proof -
  note 1 = list_common_attributes_result [OF assms]
  note 2 = list_all_attributes_result [OF assms]
  have 3: "length COMMON_ATTRIBUTES = 18" by (simp add: COMMON_ATTRIBUTES_def)
  have 4: "\<forall>n. excluded_name n \<longleftrightarrow>
              (\<exists>pat \<in> set [''_homolog_'', ''dbass'', ''affy_'', ''agilent_''].
                 \<exists>u w. n = u @ pat @ w)"
    using excluded_name_iff by (simp add: excluded_patterns_def)
  have imp: "r ! j \<in> set COMMON_ATTRIBUTES \<Longrightarrow> \<not> excluded_name (r ! j)" for r :: "string list"
    using common_not_excluded by blast
  have 5: "filter (\<lambda>r. r ! j \<in> set COMMON_ATTRIBUTES) (rows df) =
           filter (\<lambda>r. r ! j \<in> set COMMON_ATTRIBUTES)
             (filter (\<lambda>r. \<not> excluded_name (r ! j)) (rows df))"
    using imp by (auto intro: filter_cong)
  have 6: "set (filter (\<lambda>r. r ! j \<in> set COMMON_ATTRIBUTES) (rows df))
           \<subseteq> set (filter (\<lambda>r. \<not> excluded_name (r ! j)) (rows df))"
    using imp by auto
  have 7: "\<forall>r \<in> set (filter (\<lambda>r. r ! j \<in> set COMMON_ATTRIBUTES) (rows df)).
            \<not> excluded_name (r ! j)"
    using imp by auto
  from 1 2 3 4 5 6 7 show ?thesis by blast
qed

theorem attribute_listings_witness:
  "fst (list_common_attributes catalog_world ''ENSEMBL_MART_ENSEMBL'' ''hsapiens_gene_ensembl''
          initial_state) =
     Return (''name,display_name,description'' @ [CHR 0x0A]
             @ ''ensembl_gene_id,Gene stable ID,Stable ID of the Gene'' @ [CHR 0x0A]
             @ ''hgnc_symbol,HGNC symbol,'' @ [CHR 0x0A]) \<and>
   fst (list_all_attributes catalog_world ''ENSEMBL_MART_ENSEMBL'' ''hsapiens_gene_ensembl''
          initial_state) =
     Return (''name,display_name,description'' @ [CHR 0x0A]
             @ ''ensembl_gene_id,Gene stable ID,Stable ID of the Gene'' @ [CHR 0x0A]
             @ ''go_id,GO term accession,'' @ [CHR 0x0A]
             @ ''hgnc_symbol,HGNC symbol,'' @ [CHR 0x0A])"
proof -
  have h1: "connect_outcome catalog_world (length (requests initial_state)) DEFAULT_HOST = None"
    by (simp add: catalog_world_def)
  have h2: "answer catalog_world (Suc (length (requests initial_state)))
              (ListAttributes ''ENSEMBL_MART_ENSEMBL'' ''hsapiens_gene_ensembl'')
              = Inr attribute_frame"
    by (simp add: catalog_world_def)
  have h3: "index_of ''name'' (columns attribute_frame) = Some 0"
    by (simp add: attribute_frame_def)
  have c: "filter (\<lambda>r. r ! 0 \<in> set COMMON_ATTRIBUTES) (rows attribute_frame) =
             [[''ensembl_gene_id'', ''Gene stable ID'', ''Stable ID of the Gene''],
              [''hgnc_symbol'', ''HGNC symbol'', '''']]"
    by (simp add: attribute_frame_def COMMON_ATTRIBUTES_def)
  have a: "filter (\<lambda>r. \<not> excluded_name (r ! 0)) (rows attribute_frame) =
             [[''ensembl_gene_id'', ''Gene stable ID'', ''Stable ID of the Gene''],
              [''go_id'', ''GO term accession'', ''''],
              [''hgnc_symbol'', ''HGNC symbol'', '''']]"
    by (simp add: attribute_frame_def excluded_name_def excluded_patterns_def)
  have l: "linesep catalog_world = [CHR 0x0A]" by (simp add: catalog_world_def)
  from attribute_listings [OF h1 h2 h3] show ?thesis
    unfolding c a l
    by (simp add: attribute_frame_def to_csv_def remove_cr_def csv_record_def csv_field_def
          needs_quotes_def)
qed

section \<open>Connections of the listing tools\<close>

text \<open>
  Claim C7 at a failing input: after \<open>list_marts\<close> has cached a connection,
  \<open>list_common_attributes\<close> connects again; of five listing calls in a row, four
  connect.
\<close>

theorem listing_bypasses_connection_cache:
  "requests (run catalog_world
              [CallListMarts,
               CallListCommonAttributes ''ENSEMBL_MART_ENSEMBL'' ''hsapiens_gene_ensembl'']
              initial_state)
     = [Connect DEFAULT_HOST, ListMarts,
        Connect DEFAULT_HOST, ListAttributes ''ENSEMBL_MART_ENSEMBL'' ''hsapiens_gene_ensembl''] \<and>
   cache_get () (server_cache (snd (list_marts catalog_world initial_state))) = Some 0 \<and>
   length (filter is_connect
             (requests (run catalog_world
                [CallListMarts,
                 CallListCommonAttributes ''ENSEMBL_MART_ENSEMBL'' ''hsapiens_gene_ensembl'',
                 CallListAllAttributes ''ENSEMBL_MART_ENSEMBL'' ''hsapiens_gene_ensembl'',
                 CallListFilters ''ENSEMBL_MART_ENSEMBL'' ''hsapiens_gene_ensembl'',
                 CallListDatasets ''ENSEMBL_MART_ENSEMBL'']
                initial_state))) = 4"
  by (simp add: list_marts_def list_marts_try_def list_datasets_def list_datasets_try_def
        list_common_attributes_def list_all_attributes_def list_filters_def
        get_column_def drop_matching_def eval_defs catalog_world_def attribute_frame_def duplicate_frame_def COMMON_ATTRIBUTES_def str_contains_def isin_def select_rows_def)

section \<open>The tabular text read back\<close>

lemma remove_cr_append [simp]: "remove_cr (a @ b) = remove_cr a @ remove_cr b"
  by (simp add: remove_cr_def)

lemma remove_cr_Cons:
  "remove_cr (c # cs) = (if c = CHR 0x0D then remove_cr cs else c # remove_cr cs)"
  by (simp add: remove_cr_def)

lemma remove_cr_Nil [simp]: "remove_cr [] = []"
  by (simp add: remove_cr_def)

lemma no_cr_remove_cr: "CHR 0x0D \<notin> set (remove_cr s)"
  by (simp add: remove_cr_def)

lemma remove_cr_id: "CHR 0x0D \<notin> set s \<Longrightarrow> remove_cr s = s"
  by (induction s) (auto simp: remove_cr_Cons)

lemma remove_cr_double_quotes: "remove_cr (double_quotes f) = double_quotes (remove_cr f)"
  by (induction f) (auto simp: double_quotes_def remove_cr_Cons)

lemma needs_quotes_Cons:
  "needs_quotes (c # cs) \<longleftrightarrow>
     c = CHR '','' \<or> c = CHR 0x22 \<or> c = CHR 0x0A \<or> c = CHR 0x0D \<or> needs_quotes cs"
  by (auto simp: needs_quotes_def)

lemma plain_remove_cr: "\<not> needs_quotes f \<Longrightarrow> remove_cr f = f"
  by (induction f) (auto simp: needs_quotes_Cons remove_cr_Cons)

lemma parse_quoted:
  "parse_csv InQuoted f r (double_quotes g @ CHR 0x22 # rest) = parse_csv QuoteSeen (f @ g) r rest"
  by (induction g arbitrary: f) (simp_all add: double_quotes_def)

lemma parse_plain:
  "\<not> needs_quotes g \<Longrightarrow> parse_csv InField f r (g @ rest) = parse_csv InField (f @ g) r rest"
  by (induction g arbitrary: f) (simp_all add: needs_quotes_Cons)

lemma remove_cr_csv_field:
  "remove_cr (csv_field f) =
     (if needs_quotes f then CHR 0x22 # double_quotes (remove_cr f) @ [CHR 0x22] else f)"
  by (simp add: csv_field_def remove_cr_double_quotes plain_remove_cr remove_cr_Cons)

lemma parse_field_comma:
  "parse_csv FieldStart [] r (remove_cr (csv_field f) @ CHR '','' # rest) =
     parse_csv FieldStart [] (r @ [remove_cr f]) rest"
proof (cases "needs_quotes f")
  case True
  then show ?thesis by (simp add: remove_cr_csv_field parse_quoted)
next
  case False
  then show ?thesis
  proof (cases f)
    case Nil
    with False show ?thesis by (simp add: remove_cr_csv_field)
  next
    case (Cons c cs)
    with False have c: "c \<noteq> CHR '',''" "c \<noteq> CHR 0x22" "c \<noteq> CHR 0x0A" and cs: "\<not> needs_quotes cs"
      by (simp_all add: needs_quotes_Cons)
    from False have "remove_cr f = f" by (rule plain_remove_cr)
    with False Cons c parse_plain [OF cs, of "[c]" r "CHR '','' # rest"] show ?thesis
      by (simp add: remove_cr_csv_field)
  qed
qed

lemma parse_field_newline:
  "parse_csv FieldStart [] r (remove_cr (csv_field f) @ CHR 0x0A # rest) =
     (r @ [remove_cr f]) # parse_csv RecordStart [] [] rest"
proof (cases "needs_quotes f")
  case True
  then show ?thesis by (simp add: remove_cr_csv_field parse_quoted)
next
  case False
  then show ?thesis
  proof (cases f)
    case Nil
    with False show ?thesis by (simp add: remove_cr_csv_field)
  next
    case (Cons c cs)
    with False have c: "c \<noteq> CHR '',''" "c \<noteq> CHR 0x22" "c \<noteq> CHR 0x0A" and cs: "\<not> needs_quotes cs"
      by (simp_all add: needs_quotes_Cons)
    from False have "remove_cr f = f" by (rule plain_remove_cr)
    with False Cons c parse_plain [OF cs, of "[c]" r "CHR 0x0A # rest"] show ?thesis
      by (simp add: remove_cr_csv_field)
  qed
qed

lemma parse_first_field_comma:
  "parse_csv RecordStart [] [] (remove_cr (csv_field f) @ CHR '','' # rest) =
     parse_csv FieldStart [] [remove_cr f] rest"
proof (cases "needs_quotes f")
  case True
  then show ?thesis by (simp add: remove_cr_csv_field parse_quoted)
next
  case False
  then show ?thesis
  proof (cases f)
    case Nil
    with False show ?thesis by (simp add: remove_cr_csv_field)
  next
    case (Cons c cs)
    with False have c: "c \<noteq> CHR '',''" "c \<noteq> CHR 0x22" "c \<noteq> CHR 0x0A" and cs: "\<not> needs_quotes cs"
      by (simp_all add: needs_quotes_Cons)
    from False have "remove_cr f = f" by (rule plain_remove_cr)
    with False Cons c parse_plain [OF cs, of "[c]" "[]" "CHR '','' # rest"] show ?thesis
      by (simp add: remove_cr_csv_field)
  qed
qed

lemma parse_only_field:
  assumes "f \<noteq> []"
  shows "parse_csv RecordStart [] [] (remove_cr (csv_field f) @ CHR 0x0A # rest) =
           [remove_cr f] # parse_csv RecordStart [] [] rest"
proof (cases "needs_quotes f")
  case True
  then show ?thesis by (simp add: remove_cr_csv_field parse_quoted)
next
  case False
  from assms obtain c cs where Cons: "f = c # cs" by (cases f) auto
  with False have c: "c \<noteq> CHR '',''" "c \<noteq> CHR 0x22" "c \<noteq> CHR 0x0A" and cs: "\<not> needs_quotes cs"
    by (simp_all add: needs_quotes_Cons)
  from False have "remove_cr f = f" by (rule plain_remove_cr)
  with False Cons c parse_plain [OF cs, of "[c]" "[]" "CHR 0x0A # rest"] show ?thesis
    by (simp add: remove_cr_csv_field)
qed

lemma parse_more_fields:
  "fs \<noteq> [] \<Longrightarrow>
   parse_csv FieldStart [] r (remove_cr (join_fields (map csv_field fs)) @ CHR 0x0A # rest) =
     (r @ map remove_cr fs) # parse_csv RecordStart [] [] rest"
proof (induction fs arbitrary: r)
  case Nil
  then show ?case by simp
next
  case (Cons f fs)
  show ?case
  proof (cases fs)
    case Nil
    then show ?thesis by (simp add: parse_field_newline)
  next
    case (Cons g gs)
    with Cons.IH [of "r @ [remove_cr f]"] show ?thesis
      by (simp add: parse_field_comma remove_cr_Cons)
  qed
qed

lemma parse_record:
  "parse_csv RecordStart [] [] (remove_cr (csv_record fs) @ CHR 0x0A # rest) =
     map remove_cr fs # parse_csv RecordStart [] [] rest"
proof (cases fs)
  case Nil
  then show ?thesis by (simp add: csv_record_def)
next
  case (Cons f gs)
  show ?thesis
  proof (cases gs)
    case Nil
    show ?thesis
    proof (cases "f = []")
      case True
      with Cons Nil show ?thesis by (simp add: csv_record_def remove_cr_Cons)
    next
      case False
      with Cons Nil parse_only_field [OF False, of rest] show ?thesis
        by (simp add: csv_record_def)
    qed
  next
    case (Cons g hs)
    have "parse_csv FieldStart [] [remove_cr f]
            (remove_cr (join_fields (map csv_field gs)) @ CHR 0x0A # rest) =
          ([remove_cr f] @ map remove_cr gs) # parse_csv RecordStart [] [] rest"
      using Cons by (intro parse_more_fields) simp
    with \<open>fs = f # gs\<close> Cons show ?thesis
      by (simp add: csv_record_def parse_first_field_comma remove_cr_Cons)
  qed
qed

lemma parse_records:
  "parse_csv RecordStart [] [] (concat (map (\<lambda>r. remove_cr (csv_record r) @ [CHR 0x0A]) rs)) =
     map (map remove_cr) rs"
  by (induction rs) (simp_all add: parse_record)

lemma remove_cr_to_csv:
  assumes "sep = [CHR 0x0A] \<or> sep = [CHR 0x0D, CHR 0x0A]"
  shows "remove_cr (to_csv sep df) =
           concat (map (\<lambda>r. remove_cr (csv_record r) @ [CHR 0x0A]) (columns df # rows df))"
proof -
  from assms have sep: "remove_cr sep = [CHR 0x0A]"
    by (auto simp: remove_cr_Cons)
  have "remove_cr (concat (map (\<lambda>r. csv_record r @ sep) rs)) =
          concat (map (\<lambda>r. remove_cr (csv_record r) @ [CHR 0x0A]) rs)" for rs
    by (induction rs) (simp_all add: sep)
  then show ?thesis unfolding to_csv_def by blast
qed

lemma read_csv_normalized:
  assumes "sep = [CHR 0x0A] \<or> sep = [CHR 0x0D, CHR 0x0A]"
  shows "read_csv (remove_cr (to_csv sep df)) =
           Some \<lparr>columns = map remove_cr (columns df), rows = map (map remove_cr) (rows df)\<rparr>"
  unfolding remove_cr_to_csv [OF assms] read_csv_def parse_records by simp

lemma table_results:
  assumes "fst (list_marts_try env s) = Return out \<or>
           fst (list_datasets_try env m s) = Return out \<or>
           fst (list_common_attributes env m d s) = Return out \<or>
           fst (list_all_attributes env m d s) = Return out \<or>
           fst (list_filters env m d s) = Return out \<or>
           fst (get_data_try env m d a f s) = Return out"
  shows "\<exists>df. out = remove_cr (to_csv (linesep env) df)"
proof -
  have 1: "fst (list_marts_try env s) = Return out \<Longrightarrow> ?thesis"
    by (cases "get_server env s")
      (auto simp: list_marts_try_def fetch_def Let_def split: result.splits sum.splits)
  have 2: "fst (list_datasets_try env m s) = Return out \<Longrightarrow> ?thesis"
    by (cases "get_server env s")
      (auto simp: list_datasets_try_def fetch_def Let_def split: result.splits sum.splits)
  have 3: "fst (list_common_attributes env m d s) = Return out \<Longrightarrow> ?thesis"
    by (auto simp: list_common_attributes_def new_server_def fetch_def Let_def
          split: result.splits sum.splits option.splits)
  have 4: "fst (list_all_attributes env m d s) = Return out \<Longrightarrow> ?thesis"
    by (auto simp: list_all_attributes_def new_server_def fetch_def Let_def
          split: result.splits sum.splits option.splits)
  have 5: "fst (list_filters env m d s) = Return out \<Longrightarrow> ?thesis"
    by (auto simp: list_filters_def new_server_def fetch_def Let_def
          split: result.splits sum.splits option.splits)
  have 6: "fst (get_data_try env m d a f s) = Return out \<Longrightarrow> ?thesis"
    by (cases "get_server env s")
      (auto simp: get_data_try_def fetch_def Let_def split: result.splits sum.splits)
  from assms 1 2 3 4 5 6 show ?thesis by blast
qed

text \<open>
  Claim C9 (amended). Every table that a listing or query returns is the text of a data
  frame after \<open>.replace("\r", "")\<close>. On a platform whose line separator is a line feed
  or carriage return and line feed, this text has no carriage return, consists of the
  header record and one record per row, each ended by a line feed, and is read back as the
  column names and cells in their order with every carriage return removed from them: as
  the original table when no column name and no cell holds a carriage return.
\<close>

theorem normalized_table_round_trip:
  assumes "linesep env = [CHR 0x0A] \<or> linesep env = [CHR 0x0D, CHR 0x0A]"
  shows "(\<forall>out. fst (list_marts_try env s) = Return out \<or>
                fst (list_datasets_try env m s) = Return out \<or>
                fst (list_common_attributes env m d s) = Return out \<or>
                fst (list_all_attributes env m d s) = Return out \<or>
                fst (list_filters env m d s) = Return out \<or>
                fst (get_data_try env m d a f s) = Return out
            \<longrightarrow> (\<exists>df. out = remove_cr (to_csv (linesep env) df))) \<and>
         (\<forall>df. CHR 0x0D \<notin> set (remove_cr (to_csv (linesep env) df)) \<and>
               remove_cr (to_csv (linesep env) df) =
                 concat (map (\<lambda>r. remove_cr (csv_record r) @ [CHR 0x0A]) (columns df # rows df)) \<and>
               read_csv (remove_cr (to_csv (linesep env) df)) =
                 Some \<lparr>columns = map remove_cr (columns df),
                       rows = map (map remove_cr) (rows df)\<rparr> \<and>
               ((\<forall>c \<in> set (columns df). CHR 0x0D \<notin> set c) \<and>
                (\<forall>r \<in> set (rows df). \<forall>c \<in> set r. CHR 0x0D \<notin> set c)
                \<longrightarrow> read_csv (remove_cr (to_csv (linesep env) df)) = Some df))"
proof (intro conjI allI impI)
  fix out
  assume "fst (list_marts_try env s) = Return out \<or>
          fst (list_datasets_try env m s) = Return out \<or>
          fst (list_common_attributes env m d s) = Return out \<or>
          fst (list_all_attributes env m d s) = Return out \<or>
          fst (list_filters env m d s) = Return out \<or>
          fst (get_data_try env m d a f s) = Return out"
  then show "\<exists>df. out = remove_cr (to_csv (linesep env) df)" by (rule table_results)
next
  fix df :: dataframe
  show "CHR 0x0D \<notin> set (remove_cr (to_csv (linesep env) df))" by (rule no_cr_remove_cr)
next
  fix df :: dataframe
  show "remove_cr (to_csv (linesep env) df) =
          concat (map (\<lambda>r. remove_cr (csv_record r) @ [CHR 0x0A]) (columns df # rows df))"
    using assms by (rule remove_cr_to_csv)
next
  fix df :: dataframe
  show "read_csv (remove_cr (to_csv (linesep env) df)) =
          Some \<lparr>columns = map remove_cr (columns df), rows = map (map remove_cr) (rows df)\<rparr>"
    using assms by (rule read_csv_normalized)
next
  fix df :: dataframe
  assume clean: "(\<forall>c \<in> set (columns df). CHR 0x0D \<notin> set c) \<and>
                 (\<forall>r \<in> set (rows df). \<forall>c \<in> set r. CHR 0x0D \<notin> set c)"
  then have "map remove_cr (columns df) = columns df"
    by (simp add: map_idI remove_cr_id)
  moreover from clean have "map (map remove_cr) (rows df) = rows df"
    by (simp add: map_idI remove_cr_id)
  ultimately show "read_csv (remove_cr (to_csv (linesep env) df)) = Some df"
    using read_csv_normalized [OF assms, of df] by simp
qed

theorem normalized_table_round_trip_witness:
  "fst (list_marts_try windows_world initial_state)
     = Return (remove_cr (to_csv [CHR 0x0D, CHR 0x0A] tricky_frame)) \<and>
   read_csv (remove_cr (to_csv [CHR 0x0D, CHR 0x0A] tricky_frame)) = Some tricky_frame"
proof -
  have sep: "linesep windows_world = [CHR 0x0D, CHR 0x0A]"
    by (simp add: windows_world_def)
  then have h: "linesep windows_world = [CHR 0x0A] \<or> linesep windows_world = [CHR 0x0D, CHR 0x0A]"
    by simp
  have clean: "(\<forall>c \<in> set (columns tricky_frame). CHR 0x0D \<notin> set c) \<and>
        (\<forall>r \<in> set (rows tricky_frame). \<forall>c \<in> set r. CHR 0x0D \<notin> set c)"
    by (simp add: tricky_frame_def)
  have run: "fst (list_marts_try windows_world initial_state)
     = Return (remove_cr (to_csv [CHR 0x0D, CHR 0x0A] tricky_frame))"
    by (simp add: list_marts_try_def get_server_def get_server_body_def new_server_def
          fetch_def cache_get_def Let_def initial_state_def windows_world_def)
  from normalized_table_round_trip [OF h, where s = initial_state and m = "[]" and d = "[]" and a = "[]" and f = "[]"] clean run
  show ?thesis unfolding sep by blast
qed

text \<open>
  Claim C9 as stated fails for a cell that holds a carriage return: the character is
  removed inside the quoted field, and the text is read back with another cell.
\<close>

theorem carriage_return_counterexample:
  "fst (list_marts cr_world initial_state) =
     Return (''name,description'' @ [CHR 0x0A]
             @ ''TP53,'' @ [CHR 0x22] @ ''ab'' @ [CHR 0x22] @ [CHR 0x0A]) \<and>
   read_csv (''name,description'' @ [CHR 0x0A]
             @ ''TP53,'' @ [CHR 0x22] @ ''ab'' @ [CHR 0x22] @ [CHR 0x0A]) =
     Some \<lparr>columns = [''name'', ''description''], rows = [[''TP53'', ''ab'']]\<rparr> \<and>
   read_csv (''name,description'' @ [CHR 0x0A]
             @ ''TP53,'' @ [CHR 0x22] @ ''ab'' @ [CHR 0x22] @ [CHR 0x0A]) \<noteq> Some cr_frame"
  by (simp add: list_marts_def list_marts_try_def get_server_def get_server_body_def
        new_server_def fetch_def cache_get_def cache_put_def Let_def initial_state_def
        cr_world_def cr_frame_def to_csv_def remove_cr_def csv_record_def csv_field_def
        double_quotes_def needs_quotes_def read_csv_def)

end
